theory Spec2Isabelle
  imports Main "HOL-Library.AList" "HOL-Library.Sublist"
begin

section \<open>The module loader of pytype (\<^verbatim>\<open>pytype/load_pytd.py\<close>)\<close>

text \<open>
  The class \<^verbatim>\<open>Loader\<close> caches parsed declaration trees by module name, searches a
  module's source in three tiers, and links the trees of modules that refer to each
  other. The parser, the bundled definitions, the file system and the tree visitors
  live in other modules of the repository; the loader only decides when they are called
  and with what. They are fields of the record \<open>env\<close> below, every one of them free to
  raise, and the type of trees is a parameter.

  Python names that start with an underscore get the prefix \<open>u_\<close>
  (\<^verbatim>\<open>_load_file\<close> is \<open>u_load_file\<close>).
\<close>

subsection \<open>Exceptions\<close>

text \<open>
  Each constructor is one \<^verbatim>\<open>raise\<close> or \<^verbatim>\<open>assert\<close> of the file:
  \<^verbatim>\<open>DependencyNotFoundError(name)\<close> (line 132), the \<^verbatim>\<open>AssertionError\<close> of line 93
  (name, requested file, registered file), the assertions of lines 73, 189 and 228, the
  \<^verbatim>\<open>ValueError\<close> of lines 164 and 191, the \<^verbatim>\<open>KeyError\<close> a \<^verbatim>\<open>del\<close> of a missing key
  raises, and \<open>Raised\<close> for whatever a collaborator raises.
\<close>

datatype error =
    DependencyNotFoundError string
  | AssertionError_exists_as_both string string string
  | AssertionError_pythonpath
  | AssertionError_level
  | AssertionError_sep string
  | ValueError_non_package
  | KeyError string
  | Raised string

subsection \<open>Data\<close>

record 'ast Module =
  "module_name" :: string
  filename :: string
  ast :: 'ast
  dirty :: bool

text \<open>\<^verbatim>\<open>Module.__init__\<close>: a new module is dirty.\<close>

definition Module_init :: "string \<Rightarrow> string \<Rightarrow> 'ast \<Rightarrow> 'ast Module" where
  "Module_init name fname tree =
     \<lparr>module_name = name, filename = fname, ast = tree, dirty = True\<rparr>"

text \<open>
  The calls that leave the loader: the two parsers, the typeshed store and the two
  probes of the file system. The loader state keeps them in the order they happen.
\<close>

datatype event =
    Call_ParsePyTD string string
  | Call_ParsePredefinedPyTD string string
  | Call_parse_type_definition string string
  | Call_exists string
  | Call_isdir string

text \<open>
  The mutable attributes of a \<^verbatim>\<open>Loader\<close>. \<^verbatim>\<open>_modules\<close> is a dictionary; it is an
  association list here (keys distinct, a new key goes to the end) so that the sweep
  over its values has an order.
\<close>

record 'ast Loader =
  modules :: "(string \<times> 'ast Module) list"
  concatenated :: "'ast option"
  calls :: "event list"

record options =
  python_version :: "nat \<times> nat"
  pythonpath :: "string list"
  imports_map :: "(string \<times> string) list option"
  typeshed :: bool

text \<open>
  The attributes that never change (\<^verbatim>\<open>base_module\<close>, \<^verbatim>\<open>options\<close>) and the
  collaborators. A visitor that works in place (\<^verbatim>\<open>FillInModuleClasses\<close>) returns the
  tree as it leaves it. The two verifiers return the exception they raise, if any.
\<close>

record 'ast env =
  base_module :: "string option"
  options :: options
  GetBuiltinsAndTyping :: "'ast \<times> 'ast"
  ParsePyTD :: "string \<Rightarrow> string \<Rightarrow> nat \<times> nat \<Rightarrow> error + 'ast"
  ParsePredefinedPyTD :: "string \<Rightarrow> string \<Rightarrow> nat \<times> nat \<Rightarrow> error + 'ast option"
  parse_type_definition :: "string \<Rightarrow> string \<Rightarrow> nat \<times> nat \<Rightarrow> error + 'ast option"
  EmptyModule :: "string \<Rightarrow> 'ast"
  Concat :: "'ast list \<Rightarrow> 'ast"
  path_exists :: "string \<Rightarrow> bool"
  path_isdir :: "string \<Rightarrow> bool"
  ConvertTypingToNative :: "nat \<times> nat \<Rightarrow> 'ast \<Rightarrow> error + 'ast"
  SimplifyOptionalParameters :: "'ast \<Rightarrow> error + 'ast"
  LookupBuiltins :: "'ast \<Rightarrow> 'ast \<Rightarrow> error + 'ast"
  NamedTypeToClassType :: "'ast \<Rightarrow> error + 'ast"
  CollectDependencies :: "'ast \<Rightarrow> string list"
  LookupExternalTypes :: "(string \<rightharpoonup> 'ast) \<Rightarrow> string option \<Rightarrow> 'ast \<Rightarrow> error + 'ast"
  InsertSignatureTemplates :: "'ast \<Rightarrow> error + 'ast"
  AdjustTemplates :: "'ast \<Rightarrow> 'ast \<Rightarrow> error + 'ast"
  FillInModuleClasses :: "(string \<rightharpoonup> 'ast) \<Rightarrow> 'ast \<Rightarrow> error + 'ast"
  VerifyLookup :: "'ast \<Rightarrow> error option"
  VerifyContainers :: "'ast \<Rightarrow> error option"

text \<open>
  What a method gives back: the value it returns or the exception it raises, and the
  loader as the call leaves it. \<open>None\<close> is a call that ran out of recursion depth.
\<close>

type_synonym ('ast, 'a) outcome = "((error + 'a) \<times> 'ast Loader) option"

type_synonym 'ast importer = "'ast Loader \<Rightarrow> string \<Rightarrow> ('ast, 'ast option) outcome"

subsection \<open>Strings, paths and slices of Python\<close>

text \<open>\<^verbatim>\<open>s.split(".")\<close>: never empty, one component more than there are dots.\<close>

fun split_dot :: "string \<Rightarrow> string list" where
  "split_dot [] = [[]]"
| "split_dot (c # cs) =
     (if c = CHR ''.'' then [] # split_dot cs
      else (case split_dot cs of [] \<Rightarrow> [[c]] | w # ws \<Rightarrow> (c # w) # ws))"

text \<open>\<^verbatim>\<open>".".join(xs)\<close>.\<close>

fun join_dot :: "string list \<Rightarrow> string" where
  "join_dot [] = []"
| "join_dot [w] = w"
| "join_dot (w # v # ws) = w @ ''.'' @ join_dot (v # ws)"

text \<open>
  \<^verbatim>\<open>os.path.join(a, *p)\<close> of \<^verbatim>\<open>posixpath\<close>: a component that starts with the
  separator replaces what came before it; no separator is added after an empty path or
  after one that ends with the separator.
\<close>

fun os_path_join :: "string \<Rightarrow> string list \<Rightarrow> string" where
  "os_path_join path [] = path"
| "os_path_join path (b # p) =
     os_path_join
       (if b \<noteq> [] \<and> hd b = CHR ''/'' then b
        else if path = [] \<or> last path = CHR ''/'' then path @ b
        else path @ ''/'' @ b) p"

text \<open>\<^verbatim>\<open>xs[0:stop]\<close> and \<^verbatim>\<open>xs[:stop]\<close>: a negative \<open>stop\<close> counts from the end.\<close>

definition slice_to :: "'a list \<Rightarrow> int \<Rightarrow> 'a list" where
  "slice_to xs stop =
     (if stop < 0 then take (nat (int (length xs) + stop)) xs else take (nat stop) xs)"

subsection \<open>The dictionary \<^verbatim>\<open>_modules\<close> and the log of calls\<close>

definition registered :: "'ast Loader \<Rightarrow> string \<Rightarrow> bool" where
  "registered st name = (map_of (modules st) name \<noteq> None)"

definition record_call :: "event \<Rightarrow> 'ast Loader \<Rightarrow> 'ast Loader" where
  "record_call ev st = st\<lparr>calls := calls st @ [ev]\<rparr>"

text \<open>\<^verbatim>\<open>self._modules[name] = module\<close>.\<close>

definition set_module :: "string \<Rightarrow> 'ast Module \<Rightarrow> 'ast Loader \<Rightarrow> 'ast Loader" where
  "set_module name m st = st\<lparr>modules := AList.update name m (modules st)\<rparr>"

text \<open>\<^verbatim>\<open>module.ast = tree\<close> for the module object registered under \<open>name\<close>.\<close>

definition set_ast :: "string \<Rightarrow> 'ast \<Rightarrow> 'ast Loader \<Rightarrow> 'ast Loader" where
  "set_ast name tree st =
     st\<lparr>modules := map (\<lambda>(k, m). if k = name then (k, m\<lparr>ast := tree\<rparr>) else (k, m)) (modules st)\<rparr>"

text \<open>\<^verbatim>\<open>del self._modules[name]\<close>, which raises \<^verbatim>\<open>KeyError\<close> on a missing key.\<close>

definition del_module :: "string \<Rightarrow> 'ast Loader \<Rightarrow> error + 'ast Loader" where
  "del_module name st =
     (if registered st name then Inr (st\<lparr>modules := AList.delete name (modules st)\<rparr>)
      else Inl (KeyError name))"

text \<open>\<^verbatim>\<open>{name: module.ast for name, module in self._modules.items()}\<close>.\<close>

definition module_map :: "'ast Loader \<Rightarrow> (string \<rightharpoonup> 'ast)" where
  "module_map st = map_option ast \<circ> map_of (modules st)"

subsection \<open>Construction\<close>

text \<open>\<^verbatim>\<open>Loader.PREFIX\<close>.\<close>

definition PREFIX :: string where
  "PREFIX = ''pytd:''"

text \<open>
  \<^verbatim>\<open>Loader.__init__\<close>: the registry starts with \<^verbatim>\<open>__builtin__\<close> and \<^verbatim>\<open>typing\<close>;
  with an imports map the search path has to be \<^verbatim>\<open>[""]\<close>.
\<close>

definition Loader_init :: "'ast env \<Rightarrow> error + 'ast Loader" where
  "Loader_init env =
     (let st = \<lparr>modules =
                  [(''__builtin__'',
                    Module_init ''__builtin__'' (PREFIX @ ''__builtin__'')
                      (fst (GetBuiltinsAndTyping env))),
                   (''typing'',
                    Module_init ''typing'' (PREFIX @ ''typing'')
                      (snd (GetBuiltinsAndTyping env)))],
                concatenated = None, calls = []\<rparr>
      in if imports_map (options env) \<noteq> None \<and> pythonpath (options env) \<noteq> ['''']
         then Inl AssertionError_pythonpath else Inr st)"

subsection \<open>Loading a file and linking it (\<^verbatim>\<open>_load_file\<close>, phase 1)\<close>

text \<open>\<^verbatim>\<open>_postprocess_pyi\<close>: four passes in a fixed order.\<close>

definition u_postprocess_pyi :: "'ast env \<Rightarrow> 'ast \<Rightarrow> error + 'ast" where
  "u_postprocess_pyi env tree =
     (case ConvertTypingToNative env (python_version (options env)) tree of
        Inl e \<Rightarrow> Inl e
      | Inr t1 \<Rightarrow>
     (case SimplifyOptionalParameters env t1 of
        Inl e \<Rightarrow> Inl e
      | Inr t2 \<Rightarrow>
     (case LookupBuiltins env (fst (GetBuiltinsAndTyping env)) t2 of
        Inl e \<Rightarrow> Inl e
      | Inr t3 \<Rightarrow> NamedTypeToClassType env t3)))"

text \<open>
  The loop of lines 128 to 132: a dependency that is not registered is imported; an
  import that returns \<^verbatim>\<open>None\<close> raises \<^verbatim>\<open>DependencyNotFoundError\<close>. \<open>imp\<close> is
  \<^verbatim>\<open>self._import_name\<close> with the recursion depth that is left.
\<close>

fun load_dependencies ::
  "'ast importer \<Rightarrow> 'ast Loader \<Rightarrow> string list \<Rightarrow> ('ast, unit) outcome" where
  "load_dependencies imp st [] = Some (Inr (), st)"
| "load_dependencies imp st (name # names) =
     (if registered st name then load_dependencies imp st names
      else (case imp st name of
              None \<Rightarrow> None
            | Some (Inl e, st') \<Rightarrow> Some (Inl e, st')
            | Some (Inr None, st') \<Rightarrow> Some (Inl (DependencyNotFoundError name), st')
            | Some (Inr (Some other_ast), st') \<Rightarrow> load_dependencies imp st' names))"

text \<open>\<^verbatim>\<open>_load_and_resolve_ast_dependencies(ast, ast_name)\<close>.\<close>

definition u_load_and_resolve_ast_dependencies ::
  "'ast importer \<Rightarrow> 'ast env \<Rightarrow> 'ast Loader \<Rightarrow> 'ast \<Rightarrow> string option \<Rightarrow> ('ast, 'ast) outcome" where
  "u_load_and_resolve_ast_dependencies imp env st tree ast_name =
     (let deps = CollectDependencies env tree in
      if deps = [] then Some (Inr tree, st)
      else (case load_dependencies imp st deps of
              None \<Rightarrow> None
            | Some (Inl e, st') \<Rightarrow> Some (Inl e, st')
            | Some (Inr u, st') \<Rightarrow>
                Some (LookupExternalTypes env (module_map st') ast_name tree, st')))"

text \<open>
  The body of the \<^verbatim>\<open>try\<close> of \<^verbatim>\<open>_load_file\<close> (lines 104 to 117). \<open>tree\<close> is the
  postprocessed tree, the local variable \<^verbatim>\<open>ast\<close>; every assignment to
  \<^verbatim>\<open>module.ast\<close> is an update of the registered module.
\<close>

definition load_file_try ::
  "'ast importer \<Rightarrow> 'ast env \<Rightarrow> 'ast Loader \<Rightarrow> string \<Rightarrow> 'ast \<Rightarrow> ('ast, 'ast) outcome" where
  "load_file_try imp env st name tree =
     (case u_load_and_resolve_ast_dependencies imp env st tree (Some name) of
        None \<Rightarrow> None
      | Some (Inl e, st1) \<Rightarrow> Some (Inl e, st1)
      | Some (Inr t1, st1) \<Rightarrow>
          (let st2 = set_ast name t1 st1 in
           case InsertSignatureTemplates env t1 of
             Inl e \<Rightarrow> Some (Inl e, st2)
           | Inr t2 \<Rightarrow>
               (let st3 = set_ast name t2 st2 in
                case AdjustTemplates env t2 t2 of
                  Inl e \<Rightarrow> Some (Inl e, st3)
                | Inr t3 \<Rightarrow>
                    (let st4 = set_ast name t3 st3 in
                     case FillInModuleClasses env [[] \<mapsto> tree, name \<mapsto> tree] t3 of
                       Inl e \<Rightarrow> Some (Inl e, st4)
                     | Inr t4 \<Rightarrow> Some (Inr t4, set_ast name t4 st4)))))"

text \<open>
  \<^verbatim>\<open>_load_file(module_name, filename, ast=None)\<close>. The module is registered before
  its dependencies are loaded, and removed again when anything in the \<^verbatim>\<open>try\<close> raises.
\<close>

definition u_load_file ::
  "'ast importer \<Rightarrow> 'ast env \<Rightarrow> 'ast Loader \<Rightarrow> string \<Rightarrow> string \<Rightarrow> 'ast option
     \<Rightarrow> ('ast, 'ast) outcome" where
  "u_load_file imp env st name fname given =
     (let st0 = st\<lparr>concatenated := None\<rparr> in
      case map_of (modules st0) name of
        Some existing \<Rightarrow>
          if filename existing \<noteq> fname
          then Some (Inl (AssertionError_exists_as_both name fname (filename existing)), st0)
          else Some (Inr (ast existing), st0)
      | None \<Rightarrow>
          (let (parsed, st1) =
                 (case given of
                    Some t \<Rightarrow> (Inr t, st0)
                  | None \<Rightarrow> (ParsePyTD env fname name (python_version (options env)),
                             record_call (Call_ParsePyTD fname name) st0))
           in case parsed of
                Inl e \<Rightarrow> Some (Inl e, st1)
              | Inr t \<Rightarrow>
                  (case u_postprocess_pyi env t of
                     Inl e \<Rightarrow> Some (Inl e, st1)
                   | Inr tree \<Rightarrow>
                       (case load_file_try imp env
                               (set_module name (Module_init name fname tree) st1) name tree of
                          None \<Rightarrow> None
                        | Some (Inr final, st3) \<Rightarrow> Some (Inr final, st3)
                        | Some (Inl e, st3) \<Rightarrow>
                            (case del_module name st3 of
                               Inl e' \<Rightarrow> Some (Inl e', st3)
                             | Inr st4 \<Rightarrow> Some (Inl e, st4))))))"

text \<open>\<^verbatim>\<open>_create_empty(module_name, filename)\<close>.\<close>

definition u_create_empty ::
  "'ast importer \<Rightarrow> 'ast env \<Rightarrow> 'ast Loader \<Rightarrow> string \<Rightarrow> string \<Rightarrow> ('ast, 'ast) outcome" where
  "u_create_empty imp env st name fname =
     u_load_file imp env st name fname (Some (EmptyModule env name))"

subsection \<open>The search (\<^verbatim>\<open>_import_name\<close>)\<close>

text \<open>A caller that returns what \<^verbatim>\<open>_load_file\<close> returned, a tree and never \<^verbatim>\<open>None\<close>.\<close>

definition as_found :: "('ast, 'ast) outcome \<Rightarrow> ('ast, 'ast option) outcome" where
  "as_found r =
     (case r of
        None \<Rightarrow> None
      | Some (Inl e, st) \<Rightarrow> Some (Inl e, st)
      | Some (Inr t, st) \<Rightarrow> Some (Inr (Some t), st))"

text \<open>
  \<^verbatim>\<open>_load_pyi(path, module_name)\<close>. With an imports map the path has to be one of its
  keys and the file is the key's value; without one the file is the path with
  \<^verbatim>\<open>.pyi\<close>. The file is loaded when it exists and is not a directory (\<^verbatim>\<open>and\<close> does
  not evaluate its second operand when the first is false).
\<close>

definition u_load_pyi ::
  "'ast importer \<Rightarrow> 'ast env \<Rightarrow> 'ast Loader \<Rightarrow> string \<Rightarrow> string \<Rightarrow> ('ast, 'ast option) outcome" where
  "u_load_pyi imp env st path name =
     (case (case imports_map (options env) of
              Some m \<Rightarrow> map_of m path
            | None \<Rightarrow> Some (path @ ''.pyi'')) of
        None \<Rightarrow> Some (Inr None, st)
      | Some full_path \<Rightarrow>
          (let st1 = record_call (Call_exists full_path) st in
           if path_exists env full_path
           then (let st2 = record_call (Call_isdir full_path) st1 in
                 if \<not> path_isdir env full_path
                 then as_found (u_load_file imp env st2 name full_path None)
                 else Some (Inr None, st2))
           else Some (Inr None, st1)))"

text \<open>
  \<^verbatim>\<open>_import_file(module_name, module_name_split)\<close>; the last argument is what is left
  of \<^verbatim>\<open>self.options.pythonpath\<close>.
\<close>

fun u_import_file ::
  "'ast importer \<Rightarrow> 'ast env \<Rightarrow> 'ast Loader \<Rightarrow> string \<Rightarrow> string list \<Rightarrow> string list
     \<Rightarrow> ('ast, 'ast option) outcome" where
  "u_import_file imp env st name name_split [] = Some (Inr None, st)"
| "u_import_file imp env st name name_split (searchdir # dirs) =
     (let path = os_path_join searchdir name_split;
          init_path = os_path_join path [''__init__'']
      in case u_load_pyi imp env st init_path name of
           None \<Rightarrow> None
         | Some (Inl e, st1) \<Rightarrow> Some (Inl e, st1)
         | Some (Inr (Some init_ast), st1) \<Rightarrow> Some (Inr (Some init_ast), st1)
         | Some (Inr None, st1) \<Rightarrow>
             (let st2 = record_call (Call_isdir path) st1 in
              if path_isdir env path
              then as_found
                     (u_create_empty imp env st2 name (os_path_join path [''__init__.pyi'']))
              else (case u_load_pyi imp env st2 path name of
                      None \<Rightarrow> None
                    | Some (Inl e, st3) \<Rightarrow> Some (Inl e, st3)
                    | Some (Inr (Some file_ast), st3) \<Rightarrow> Some (Inr (Some file_ast), st3)
                    | Some (Inr None, st3) \<Rightarrow>
                        u_import_file imp env st3 name name_split dirs)))"

text \<open>
  \<^verbatim>\<open>_load_builtin(subdir, module_name)\<close>: the definitions that ship with pytype, then
  typeshed when the option is set.
\<close>

definition u_load_builtin ::
  "'ast importer \<Rightarrow> 'ast env \<Rightarrow> 'ast Loader \<Rightarrow> string \<Rightarrow> string \<Rightarrow> ('ast, 'ast option) outcome" where
  "u_load_builtin imp env st subdir name =
     (let version = python_version (options env);
          st1 = record_call (Call_ParsePredefinedPyTD subdir name) st
      in case ParsePredefinedPyTD env subdir name version of
           Inl e \<Rightarrow> Some (Inl e, st1)
         | Inr own \<Rightarrow>
             (let (found, st2) =
                    (if own = None \<and> typeshed (options env)
                     then (parse_type_definition env subdir name version,
                           record_call (Call_parse_type_definition subdir name) st1)
                     else (Inr own, st1))
              in case found of
                   Inl e \<Rightarrow> Some (Inl e, st2)
                 | Inr None \<Rightarrow> Some (Inr None, st2)
                 | Inr (Some tree) \<Rightarrow>
                     as_found (u_load_file imp env st2 name (PREFIX @ name) (Some tree))))"

text \<open>
  The body of \<^verbatim>\<open>_import_name(module_name)\<close>: \<^verbatim>\<open>builtins\<close>, then the search path,
  then \<^verbatim>\<open>stdlib\<close>. \<^verbatim>\<open>os.sep\<close> is \<^verbatim>\<open>/\<close>.
\<close>

definition u_import_name_body ::
  "'ast importer \<Rightarrow> 'ast env \<Rightarrow> 'ast Loader \<Rightarrow> string \<Rightarrow> ('ast, 'ast option) outcome" where
  "u_import_name_body imp env st name =
     (if CHR ''/'' \<in> set name then Some (Inl (AssertionError_sep name), st)
      else (case u_load_builtin imp env st ''builtins'' name of
              None \<Rightarrow> None
            | Some (Inl e, st1) \<Rightarrow> Some (Inl e, st1)
            | Some (Inr (Some tree), st1) \<Rightarrow> Some (Inr (Some tree), st1)
            | Some (Inr None, st1) \<Rightarrow>
                (case u_import_file imp env st1 name (split_dot name)
                        (pythonpath (options env)) of
                   None \<Rightarrow> None
                 | Some (Inl e, st2) \<Rightarrow> Some (Inl e, st2)
                 | Some (Inr (Some file_ast), st2) \<Rightarrow> Some (Inr (Some file_ast), st2)
                 | Some (Inr None, st2) \<Rightarrow> u_load_builtin imp env st2 ''stdlib'' name)))"

text \<open>
  \<^verbatim>\<open>_import_name\<close> calls itself through \<^verbatim>\<open>_load_file\<close> for every dependency. The
  first argument bounds the depth of these calls, as the interpreter's stack does; a
  call that would go deeper gives \<open>None\<close>.
\<close>

fun u_import_name :: "nat \<Rightarrow> 'ast env \<Rightarrow> 'ast importer" where
  "u_import_name 0 env st name = None"
| "u_import_name (Suc depth) env st name =
     u_import_name_body (u_import_name depth env) env st name"

subsection \<open>The sweep (\<^verbatim>\<open>_lookup_all_classes\<close>, phase 2) and the public methods\<close>

text \<open>
  \<^verbatim>\<open>_finish_ast(ast)\<close> fills the class pointers of the tree in place, with every
  registered module and the tree itself (under the empty name) to look classes up in,
  then verifies it. It gives the exception raised, if any, and the tree as it leaves it.
\<close>

definition u_finish_ast :: "'ast env \<Rightarrow> 'ast Loader \<Rightarrow> 'ast \<Rightarrow> error option \<times> 'ast" where
  "u_finish_ast env st tree =
     (case FillInModuleClasses env ((module_map st)([] \<mapsto> tree)) tree of
        Inl e \<Rightarrow> (Some e, tree)
      | Inr t \<Rightarrow>
          (case VerifyLookup env t of
             Some e \<Rightarrow> (Some e, t)
           | None \<Rightarrow> (VerifyContainers env t, t)))"

text \<open>\<^verbatim>\<open>module.dirty = False\<close> for the module object registered under \<open>name\<close>.\<close>

definition clear_dirty :: "string \<Rightarrow> 'ast Loader \<Rightarrow> 'ast Loader" where
  "clear_dirty name st =
     st\<lparr>modules := map (\<lambda>(k, m). if k = name then (k, m\<lparr>dirty := False\<rparr>) else (k, m)) (modules st)\<rparr>"

text \<open>The loop of \<^verbatim>\<open>_lookup_all_classes\<close> over the registered modules that are left.\<close>

fun lookup_all_loop ::
  "'ast env \<Rightarrow> 'ast Loader \<Rightarrow> string list \<Rightarrow> error option \<times> 'ast Loader" where
  "lookup_all_loop env st [] = (None, st)"
| "lookup_all_loop env st (name # names) =
     (case map_of (modules st) name of
        None \<Rightarrow> lookup_all_loop env st names
      | Some m \<Rightarrow>
          if dirty m
          then (case u_finish_ast env st (ast m) of
                  (Some e, t) \<Rightarrow> (Some e, set_ast name t st)
                | (None, t) \<Rightarrow> lookup_all_loop env (clear_dirty name (set_ast name t st)) names)
          else lookup_all_loop env st names)"

definition u_lookup_all_classes :: "'ast env \<Rightarrow> 'ast Loader \<Rightarrow> error option \<times> 'ast Loader" where
  "u_lookup_all_classes env st = lookup_all_loop env st (map fst (modules st))"

text \<open>
  The tree \<^verbatim>\<open>_import_name\<close> returns is the object \<^verbatim>\<open>module.ast\<close> of the module
  registered under the name (lines 95 and 121). The sweep fills the class pointers of
  that object in place, so what the caller of a public method holds afterwards is the
  tree registered under the name after the sweep.
\<close>

definition after_sweep :: "'ast Loader \<Rightarrow> string \<Rightarrow> 'ast option \<Rightarrow> 'ast option" where
  "after_sweep st name found =
     (case found of
        None \<Rightarrow> None
      | Some tree \<Rightarrow>
          (case map_of (modules st) name of
             None \<Rightarrow> Some tree
           | Some m \<Rightarrow> Some (ast m)))"

text \<open>
  What the public import methods share: \<^verbatim>\<open>ast = self._import_name(name)\<close>,
  \<^verbatim>\<open>self._lookup_all_classes()\<close>, \<^verbatim>\<open>return ast\<close>.
\<close>

definition import_then_sweep ::
  "nat \<Rightarrow> 'ast env \<Rightarrow> 'ast Loader \<Rightarrow> string \<Rightarrow> ('ast, 'ast option) outcome" where
  "import_then_sweep depth env st name =
     (case u_import_name depth env st name of
        None \<Rightarrow> None
      | Some (Inl e, st1) \<Rightarrow> Some (Inl e, st1)
      | Some (Inr found, st1) \<Rightarrow>
          (case u_lookup_all_classes env st1 of
             (Some e, st2) \<Rightarrow> Some (Inl e, st2)
           | (None, st2) \<Rightarrow> Some (Inr (after_sweep st2 name found), st2)))"

text \<open>\<^verbatim>\<open>import_name(module_name)\<close>.\<close>

definition import_name ::
  "nat \<Rightarrow> 'ast env \<Rightarrow> 'ast Loader \<Rightarrow> string \<Rightarrow> ('ast, 'ast option) outcome" where
  "import_name depth env st name = import_then_sweep depth env st name"

text \<open>\<^verbatim>\<open>import_relative_name(name)\<close>.\<close>

definition import_relative_name ::
  "nat \<Rightarrow> 'ast env \<Rightarrow> 'ast Loader \<Rightarrow> string \<Rightarrow> ('ast, 'ast option) outcome" where
  "import_relative_name depth env st name =
     (case base_module env of
        None \<Rightarrow> Some (Inl ValueError_non_package, st)
      | Some base \<Rightarrow>
          import_then_sweep depth env st (join_dot (slice_to (split_dot base) (- 1) @ [name])))"

text \<open>\<^verbatim>\<open>import_relative(level)\<close>.\<close>

definition import_relative ::
  "nat \<Rightarrow> 'ast env \<Rightarrow> 'ast Loader \<Rightarrow> int \<Rightarrow> ('ast, 'ast option) outcome" where
  "import_relative depth env st level =
     (if \<not> level \<ge> 1 then Some (Inl AssertionError_level, st)
      else (case base_module env of
              None \<Rightarrow> Some (Inl ValueError_non_package, st)
            | Some base \<Rightarrow>
                import_then_sweep depth env st
                  (join_dot (slice_to (split_dot base) (- level)))))"

text \<open>\<^verbatim>\<open>resolve_ast(ast)\<close>: the tree is linked and finished but never registered.\<close>

definition resolve_ast ::
  "nat \<Rightarrow> 'ast env \<Rightarrow> 'ast Loader \<Rightarrow> 'ast \<Rightarrow> ('ast, 'ast) outcome" where
  "resolve_ast depth env st tree =
     (case u_postprocess_pyi env tree of
        Inl e \<Rightarrow> Some (Inl e, st)
      | Inr t \<Rightarrow>
          (case u_load_and_resolve_ast_dependencies (u_import_name depth env) env st t None of
             None \<Rightarrow> None
           | Some (Inl e, st1) \<Rightarrow> Some (Inl e, st1)
           | Some (Inr t1, st1) \<Rightarrow>
               (case u_lookup_all_classes env st1 of
                  (Some e, st2) \<Rightarrow> Some (Inl e, st2)
                | (None, st2) \<Rightarrow>
                    (case u_finish_ast env st2 t1 of
                       (Some e, t2) \<Rightarrow> Some (Inl e, st2)
                     | (None, t2) \<Rightarrow> Some (Inr t2, st2)))))"


subsection \<open>The search as a function of the name\<close>

text \<open>
  Where \<^verbatim>\<open>_import_name\<close> finds the source of a name does not depend on the
  registry. The functions below say where, tier by tier; the theorems compare the code
  with them.

  One tier of definitions that ship with pytype, \<^verbatim>\<open>builtins\<close> or \<^verbatim>\<open>stdlib\<close>:
  pytype's own definition if there is one, typeshed's otherwise when the option allows.
\<close>

definition tier_bundled :: "'ast env \<Rightarrow> string \<Rightarrow> string \<Rightarrow> error + 'ast option" where
  "tier_bundled env subdir name =
     (case ParsePredefinedPyTD env subdir name (python_version (options env)) of
        Inl e \<Rightarrow> Inl e
      | Inr (Some tree) \<Rightarrow> Inr (Some tree)
      | Inr None \<Rightarrow>
          if typeshed (options env)
          then parse_type_definition env subdir name (python_version (options env))
          else Inr None)"

text \<open>The file a path stands for, if it is there: what \<^verbatim>\<open>_load_pyi\<close> would load.\<close>

definition pyi_file :: "'ast env \<Rightarrow> string \<Rightarrow> string option" where
  "pyi_file env path =
     (case (case imports_map (options env) of
              Some m \<Rightarrow> map_of m path
            | None \<Rightarrow> Some (path @ ''.pyi'')) of
        None \<Rightarrow> None
      | Some full_path \<Rightarrow>
          if path_exists env full_path \<and> \<not> path_isdir env full_path
          then Some full_path else None)"

text \<open>
  The search path: in each directory the package's \<^verbatim>\<open>__init__\<close>, then the
  directory itself as an empty package, then the module file. A hit is the file name and
  the tree handed to \<^verbatim>\<open>_load_file\<close> (none when the file is still to be parsed).
\<close>

fun tier_search_path ::
  "'ast env \<Rightarrow> string \<Rightarrow> string list \<Rightarrow> string list \<Rightarrow> (string \<times> 'ast option) option" where
  "tier_search_path env name name_split [] = None"
| "tier_search_path env name name_split (searchdir # dirs) =
     (let path = os_path_join searchdir name_split in
      case pyi_file env (os_path_join path [''__init__'']) of
        Some full_path \<Rightarrow> Some (full_path, None)
      | None \<Rightarrow>
          if path_isdir env path
          then Some (os_path_join path [''__init__.pyi''], Some (EmptyModule env name))
          else (case pyi_file env path of
                  Some full_path \<Rightarrow> Some (full_path, None)
                | None \<Rightarrow> tier_search_path env name name_split dirs))"

text \<open>The three tiers in order; the first hit wins and an exception ends the search.\<close>

definition search_tiers :: "'ast env \<Rightarrow> string \<Rightarrow> error + (string \<times> 'ast option) option" where
  "search_tiers env name =
     (case tier_bundled env ''builtins'' name of
        Inl e \<Rightarrow> Inl e
      | Inr (Some tree) \<Rightarrow> Inr (Some (PREFIX @ name, Some tree))
      | Inr None \<Rightarrow>
          (case tier_search_path env name (split_dot name) (pythonpath (options env)) of
             Some hit \<Rightarrow> Inr (Some hit)
           | None \<Rightarrow>
               (case tier_bundled env ''stdlib'' name of
                  Inl e \<Rightarrow> Inl e
                | Inr None \<Rightarrow> Inr None
                | Inr (Some tree) \<Rightarrow> Inr (Some (PREFIX @ name, Some tree)))))"

text \<open>
  The tree \<^verbatim>\<open>_load_file\<close> registers for a source: the tree given or the parsed file,
  postprocessed.
\<close>

definition source_tree :: "'ast env \<Rightarrow> string \<Rightarrow> string \<Rightarrow> 'ast option \<Rightarrow> error + 'ast" where
  "source_tree env name fname given =
     (case (case given of
              Some t \<Rightarrow> Inr t
            | None \<Rightarrow> ParsePyTD env fname name (python_version (options env))) of
        Inl e \<Rightarrow> Inl e
      | Inr t \<Rightarrow> u_postprocess_pyi env t)"

text \<open>
  The linking passes of the \<^verbatim>\<open>try\<close> of \<^verbatim>\<open>_load_file\<close> once the dependencies are
  registered, \<open>m\<close> being the trees of the registry.
\<close>

definition link_passes :: "'ast env \<Rightarrow> (string \<rightharpoonup> 'ast) \<Rightarrow> string \<Rightarrow> 'ast \<Rightarrow> error + 'ast" where
  "link_passes env m name tree =
     (case (if CollectDependencies env tree = [] then Inr tree
            else LookupExternalTypes env m (Some name) tree) of
        Inl e \<Rightarrow> Inl e
      | Inr t1 \<Rightarrow>
     (case InsertSignatureTemplates env t1 of
        Inl e \<Rightarrow> Inl e
      | Inr t2 \<Rightarrow>
     (case AdjustTemplates env t2 t2 of
        Inl e \<Rightarrow> Inl e
      | Inr t3 \<Rightarrow> FillInModuleClasses env [[] \<mapsto> tree, name \<mapsto> tree] t3)))"

subsection \<open>Relations between the loader before and after a call\<close>

text \<open>
  \<open>grows st st'\<close>: every module registered in \<open>st\<close> is registered unchanged in \<open>st'\<close>,
  a module that is new in \<open>st'\<close> is dirty, the keys stay distinct, and the log of calls
  only gets longer.
\<close>

definition grows :: "'ast Loader \<Rightarrow> 'ast Loader \<Rightarrow> bool" where
  "grows st st' =
     ((distinct (map fst (modules st)) \<longrightarrow> distinct (map fst (modules st'))) \<and>
      (\<forall>n m. map_of (modules st) n = Some m \<longrightarrow> map_of (modules st') n = Some m) \<and>
      (\<forall>n m. map_of (modules st) n = None \<longrightarrow> map_of (modules st') n = Some m \<longrightarrow> dirty m) \<and>
      prefix (calls st) (calls st'))"

text \<open>An importer that only ever grows the loader.\<close>

definition growing :: "'ast importer \<Rightarrow> bool" where
  "growing imp = (\<forall>st name r st'. imp st name = Some (r, st') \<longrightarrow> grows st st')"

text \<open>
  What a call that loads \<open>name\<close> leaves behind. A registered name changes nothing in the
  registry. For a name that was not registered: an exception leaves it unregistered,
  \<^verbatim>\<open>None\<close> leaves the registry as it was, and a tree is the tree now registered
  under the name.
\<close>

definition load_post ::
  "'ast Loader \<Rightarrow> string \<Rightarrow> error + 'ast option \<Rightarrow> 'ast Loader \<Rightarrow> bool" where
  "load_post st name r st' =
     (grows st st' \<and>
      (if registered st name then modules st' = modules st
       else (case r of
               Inl e \<Rightarrow> \<not> registered st' name
             | Inr None \<Rightarrow> modules st' = modules st
             | Inr (Some tree) \<Rightarrow> map_option ast (map_of (modules st') name) = Some tree)))"

text \<open>
  The invariant of the registry: distinct keys, and a module that is not dirty passes
  \<^verbatim>\<open>VerifyLookup\<close>, which raises when a class reference of the tree is unbound.
\<close>

definition registry_ok :: "'ast env \<Rightarrow> 'ast Loader \<Rightarrow> bool" where
  "registry_ok env st =
     (distinct (map fst (modules st)) \<and>
      (\<forall>n m. map_of (modules st) n = Some m \<longrightarrow> \<not> dirty m \<longrightarrow> VerifyLookup env (ast m) = None))"

definition all_clean :: "'ast Loader \<Rightarrow> bool" where
  "all_clean st = (\<forall>n m. map_of (modules st) n = Some m \<longrightarrow> \<not> dirty m)"

text \<open>\<open>only_calls st st'\<close>: nothing but the log of calls differs, and it got longer.\<close>

definition only_calls :: "'ast Loader \<Rightarrow> 'ast Loader \<Rightarrow> bool" where
  "only_calls st st' =
     (modules st' = modules st \<and> concatenated st' = concatenated st \<and>
      prefix (calls st) (calls st'))"


text \<open>
  \<open>searched st st'\<close>: nothing but the log of calls differs, and the calls added are not
  calls of the file parser \<^verbatim>\<open>ParsePyTD\<close>.
\<close>

fun is_ParsePyTD_call :: "event \<Rightarrow> bool" where
  "is_ParsePyTD_call (Call_ParsePyTD fname name) = True"
| "is_ParsePyTD_call ev = False"

definition searched :: "'ast Loader \<Rightarrow> 'ast Loader \<Rightarrow> bool" where
  "searched st st' =
     (modules st' = modules st \<and> concatenated st' = concatenated st \<and>
      (\<exists>evs. calls st' = calls st @ evs \<and> list_all (\<lambda>ev. \<not> is_ParsePyTD_call ev) evs))"

text \<open>
  \<^verbatim>\<open>DependencyNotFoundError\<close> is a class of \<^verbatim>\<open>load_pytd.py\<close>, raised at line 132
  and nowhere else: the passes of the sweep raise other exceptions.
\<close>

fun is_DependencyNotFoundError :: "error \<Rightarrow> bool" where
  "is_DependencyNotFoundError (DependencyNotFoundError name) = True"
| "is_DependencyNotFoundError e = False"

definition sweep_raises_other_errors :: "'ast env \<Rightarrow> bool" where
  "sweep_raises_other_errors env =
     ((\<forall>m t e. FillInModuleClasses env m t = Inl e \<longrightarrow> \<not> is_DependencyNotFoundError e) \<and>
      (\<forall>t e. VerifyLookup env t = Some e \<longrightarrow> \<not> is_DependencyNotFoundError e) \<and>
      (\<forall>t e. VerifyContainers env t = Some e \<longrightarrow> \<not> is_DependencyNotFoundError e))"



subsection \<open>A small tree substrate to run the loader on\<close>

text \<open>
  Modelled from the spec: the declaration trees and the visitors are not part of
  \<^verbatim>\<open>load_pytd.py\<close>. The trees below keep what sections 3 and 4.4 of the
  specification say about them: a tree has a name, the classes it defines and its
  reference nodes; a reference node names a class of a module (the empty module name is
  the tree itself) and is bound or not.
\<close>

datatype class_type = ClassType string string bool

datatype decl_unit = TypeDeclUnit string "string list" "class_type list"

fun unit_classes :: "decl_unit \<Rightarrow> string list" where
  "unit_classes (TypeDeclUnit n cs rs) = cs"

fun unit_refs :: "decl_unit \<Rightarrow> class_type list" where
  "unit_refs (TypeDeclUnit n cs rs) = rs"

fun ref_module :: "class_type \<Rightarrow> string" where
  "ref_module (ClassType q c b) = q"

fun ref_bound :: "class_type \<Rightarrow> bool" where
  "ref_bound (ClassType q c b) = b"

text \<open>
  Modelled from the spec: 4.4 a, the distinct module names the reference nodes mention.
\<close>

definition collect_dependencies :: "decl_unit \<Rightarrow> string list" where
  "collect_dependencies t = remdups (filter (\<lambda>q. q \<noteq> []) (map ref_module (unit_refs t)))"

text \<open>
  Modelled from the spec: 4.4 d, every reference into another module is bound to the
  registered tree of that module, dirty or not; a module that is not in the map is an
  error.
\<close>

fun lookup_external_ref :: "(string \<rightharpoonup> decl_unit) \<Rightarrow> string option \<Rightarrow> class_type \<Rightarrow> class_type option" where
  "lookup_external_ref m self (ClassType q c b) =
     (if q = [] \<or> Some q = self then Some (ClassType q c b)
      else if m q = None then None
      else Some (ClassType q c True))"

fun lookup_external_refs ::
  "(string \<rightharpoonup> decl_unit) \<Rightarrow> string option \<Rightarrow> class_type list \<Rightarrow> class_type list option" where
  "lookup_external_refs m self [] = Some []"
| "lookup_external_refs m self (r # rs) =
     (case lookup_external_ref m self r of
        None \<Rightarrow> None
      | Some r' \<Rightarrow> map_option ((#) r') (lookup_external_refs m self rs))"

fun lookup_external_types ::
  "(string \<rightharpoonup> decl_unit) \<Rightarrow> string option \<Rightarrow> decl_unit \<Rightarrow> error + decl_unit" where
  "lookup_external_types m self (TypeDeclUnit n cs rs) =
     (case lookup_external_refs m self rs of
        None \<Rightarrow> Inl (KeyError ''Unknown module'')
      | Some rs' \<Rightarrow> Inr (TypeDeclUnit n cs rs'))"

text \<open>
  Modelled from the spec: 4.4 g and phase 2 a, an unbound reference is bound when the
  lookup map has its module and the module defines the class; otherwise it is left as it
  is.
\<close>

fun fill_in_ref :: "(string \<rightharpoonup> decl_unit) \<Rightarrow> class_type \<Rightarrow> class_type" where
  "fill_in_ref m (ClassType q c b) =
     (if b then ClassType q c b
      else (case m q of
              None \<Rightarrow> ClassType q c False
            | Some target \<Rightarrow> ClassType q c (c \<in> set (unit_classes target))))"

fun fill_in_module_classes :: "(string \<rightharpoonup> decl_unit) \<Rightarrow> decl_unit \<Rightarrow> error + decl_unit" where
  "fill_in_module_classes m (TypeDeclUnit n cs rs) = Inr (TypeDeclUnit n cs (map (fill_in_ref m) rs))"

text \<open>Modelled from the spec: phase 2 b, no reference node may remain unbound.\<close>

definition verify_lookup :: "decl_unit \<Rightarrow> error option" where
  "verify_lookup t =
     (if list_all ref_bound (unit_refs t) then None else Some (Raised ''Unresolved class''))"

text \<open>
  An environment over these trees: the bundled definitions and typeshed are tables from
  subdirectory and name to a tree, the file system is a table from file name to the tree
  the parser reads there and a list of directories. The passes the specification gives
  no effect on references are the identity.
\<close>

definition example_env ::
  "string option \<Rightarrow> options \<Rightarrow> ((string \<times> string) \<times> decl_unit) list
     \<Rightarrow> ((string \<times> string) \<times> decl_unit) list \<Rightarrow> (string \<times> decl_unit) list \<Rightarrow> string list
     \<Rightarrow> decl_unit env" where
  "example_env base opts own shed files dirs =
     \<lparr>base_module = base,
      options = opts,
      GetBuiltinsAndTyping =
        (TypeDeclUnit ''__builtin__'' [''object''] [], TypeDeclUnit ''typing'' [''Any''] []),
      ParsePyTD = (\<lambda>fname name version.
        case map_of files fname of None \<Rightarrow> Inl (Raised ''IOError'') | Some t \<Rightarrow> Inr t),
      ParsePredefinedPyTD = (\<lambda>subdir name version. Inr (map_of own (subdir, name))),
      parse_type_definition = (\<lambda>subdir name version. Inr (map_of shed (subdir, name))),
      EmptyModule = (\<lambda>name. TypeDeclUnit name [] []),
      Concat = (\<lambda>ts. TypeDeclUnit ''<all>'' (concat (map unit_classes ts)) (concat (map unit_refs ts))),
      path_exists = (\<lambda>p. map_of files p \<noteq> None \<or> p \<in> set dirs),
      path_isdir = (\<lambda>p. p \<in> set dirs),
      ConvertTypingToNative = (\<lambda>version. Inr),
      SimplifyOptionalParameters = Inr,
      LookupBuiltins = (\<lambda>b. Inr),
      NamedTypeToClassType = Inr,
      CollectDependencies = collect_dependencies,
      LookupExternalTypes = lookup_external_types,
      InsertSignatureTemplates = Inr,
      AdjustTemplates = (\<lambda>t. Inr),
      FillInModuleClasses = fill_in_module_classes,
      VerifyLookup = verify_lookup,
      VerifyContainers = (\<lambda>t. None)\<rparr>"

text \<open>The options of the examples: version 2.7, the current directory as search path.\<close>

definition example_options :: "(string \<times> string) list option \<Rightarrow> bool \<Rightarrow> options" where
  "example_options imap shed =
     \<lparr>python_version = (2, 7), pythonpath = [''''], imports_map = imap, typeshed = shed\<rparr>"

text \<open>The loader \<^verbatim>\<open>Loader.__init__\<close> builds in such an environment.\<close>

definition example_loader :: "decl_unit Loader" where
  "example_loader =
     \<lparr>modules =
        [(''__builtin__'',
          \<lparr>module_name = ''__builtin__'', filename = ''pytd:__builtin__'',
           ast = TypeDeclUnit ''__builtin__'' [''object''] [], dirty = True\<rparr>),
         (''typing'',
          \<lparr>module_name = ''typing'', filename = ''pytd:typing'',
           ast = TypeDeclUnit ''typing'' [''Any''] [], dirty = True\<rparr>)],
      concatenated = None, calls = []\<rparr>"

text \<open>
  An imports map that sends \<open>foo\<close> to \<^verbatim>\<open>/dev/null\<close>, which exists and is no
  directory; \<^verbatim>\<open>foo.pyi\<close> is on disk as well.
\<close>

definition dev_null_env :: "decl_unit env" where
  "dev_null_env =
     example_env None (example_options (Some [(''foo'', ''/dev/null'')]) False) [] []
       [(''/dev/null'', TypeDeclUnit ''foo'' [] []),
        (''foo.pyi'', TypeDeclUnit ''foo'' [''C''] [])] []"

text \<open>
  An imports map without entries; \<open>foo\<close> is a directory and \<^verbatim>\<open>bar.pyi\<close> a file on
  disk.
\<close>

definition unmapped_dir_env :: "decl_unit env" where
  "unmapped_dir_env =
     example_env None (example_options (Some []) False) [] []
       [(''bar.pyi'', TypeDeclUnit ''bar'' [''C''] [])] [''foo'']"


text \<open>
  Three environments for the order of the tiers: \<open>os\<close> only among pytype's own
  \<^verbatim>\<open>stdlib\<close> definitions, with typeshed switched off; \<open>foo\<close> in typeshed's
  \<^verbatim>\<open>builtins\<close> and as a file on the search path; \<open>foo\<close> among pytype's own
  \<^verbatim>\<open>builtins\<close> and as a file on the search path.
\<close>

definition stdlib_only_env :: "decl_unit env" where
  "stdlib_only_env =
     example_env None (example_options None False)
       [((''stdlib'', ''os''), TypeDeclUnit ''os'' [''error''] [])] [] [] []"

definition typeshed_env :: "decl_unit env" where
  "typeshed_env =
     example_env None (example_options None True) []
       [((''builtins'', ''foo''), TypeDeclUnit ''foo'' [''Shed''] [])]
       [(''foo.pyi'', TypeDeclUnit ''foo'' [''File''] [])] []"

definition bundled_and_file_env :: "decl_unit env" where
  "bundled_and_file_env =
     example_env None (example_options None False)
       [((''builtins'', ''foo''), TypeDeclUnit ''foo'' [''Bundled''] [])] []
       [(''foo.pyi'', TypeDeclUnit ''foo'' [''File''] [])] []"


text \<open>
  Two files that refer to each other: \<open>A\<close> to class \<open>Y\<close> of \<open>B\<close> and to its own
  class \<open>X\<close>, \<open>B\<close> to class \<open>X\<close> of \<open>A\<close>.
\<close>

definition cyclic_env :: "decl_unit env" where
  "cyclic_env =
     example_env None (example_options None False) [] []
       [(''A.pyi'', TypeDeclUnit ''A'' [''X'']
                      [ClassType ''B'' ''Y'' False, ClassType [] ''X'' False]),
        (''B.pyi'', TypeDeclUnit ''B'' [''Y''] [ClassType ''A'' ''X'' False])] []"




text \<open>
  \<open>M\<close> refers to \<open>C\<close>, which is a file, and to \<open>D\<close>, which is nowhere. The names of
  \<^verbatim>\<open>deps.modules\<close> are listed in the order CPython 2.7 iterates the set of the two
  (the hashes of \<open>C\<close> and \<open>D\<close> fall into slots 2 and 5 of its table).
\<close>

definition missing_dependency_env :: "decl_unit env" where
  "missing_dependency_env =
     example_env None (example_options None False) [] []
       [(''M.pyi'', TypeDeclUnit ''M'' [] [ClassType ''C'' ''X'' False, ClassType ''D'' ''Y'' False]),
        (''C.pyi'', TypeDeclUnit ''C'' [''X''] [])] []"




section \<open>Properties\<close>

subsection \<open>Running the loader on the small substrate\<close>

lemmas run_defs = example_env_def example_options_def example_loader_def
    u_import_name_body_def u_load_builtin_def record_call_def u_load_pyi_def u_load_file_def
    as_found_def u_postprocess_pyi_def load_file_try_def u_load_and_resolve_ast_dependencies_def
    registered_def set_module_def Module_init_def set_ast_def module_map_def del_module_def
    collect_dependencies_def PREFIX_def u_create_empty_def Let_def

lemmas sweep_defs = import_name_def import_then_sweep_def u_lookup_all_classes_def
  u_finish_ast_def clear_dirty_def verify_lookup_def

subsection \<open>Slices\<close>

lemma slice_to_neg: "1 \<le> level \<Longrightarrow> slice_to xs (- level) = rev (drop (nat level) (rev xs))"
  by (simp add: slice_to_def rev_drop nat_diff_distrib')

subsection \<open>The search of \<^verbatim>\<open>_import_name\<close> is \<open>search_tiers\<close>\<close>

lemma only_calls_refl: "only_calls st st"
  by (simp add: only_calls_def)

lemma only_calls_trans: "only_calls a b \<Longrightarrow> only_calls b c \<Longrightarrow> only_calls a c"
  by (auto simp: only_calls_def)

lemma only_calls_record: "only_calls st (record_call ev st)"
  by (simp add: only_calls_def record_call_def)

lemma only_calls_record2: "only_calls st s \<Longrightarrow> only_calls st (record_call ev s)"
  by (auto simp: only_calls_def record_call_def intro: prefix_order.trans)

lemma searched_refl: "searched st st"
  by (simp add: searched_def)

lemma searched_trans:
  assumes "searched a b" and "searched b c"
  shows "searched a c"
proof -
  from assms(1) obtain e1 where e1: "calls b = calls a @ e1"
    "list_all (\<lambda>ev. \<not> is_ParsePyTD_call ev) e1" unfolding searched_def by blast
  from assms(2) obtain e2 where e2: "calls c = calls b @ e2"
    "list_all (\<lambda>ev. \<not> is_ParsePyTD_call ev) e2" unfolding searched_def by blast
  from e1 e2 have "calls c = calls a @ (e1 @ e2) \<and>
      list_all (\<lambda>ev. \<not> is_ParsePyTD_call ev) (e1 @ e2)" by simp
  then have "\<exists>evs. calls c = calls a @ evs \<and> list_all (\<lambda>ev. \<not> is_ParsePyTD_call ev) evs" ..
  with assms show ?thesis by (simp add: searched_def)
qed

lemma searched_record_any:
  assumes "\<not> is_ParsePyTD_call ev"
  shows "searched st (record_call ev st)"
proof -
  from assms have "calls (record_call ev st) = calls st @ [ev] \<and>
      list_all (\<lambda>ev. \<not> is_ParsePyTD_call ev) [ev]" by (simp add: record_call_def)
  then have "\<exists>evs. calls (record_call ev st) = calls st @ evs \<and>
      list_all (\<lambda>ev. \<not> is_ParsePyTD_call ev) evs" ..
  then show ?thesis by (simp add: searched_def record_call_def)
qed

lemma searched_record:
  "searched st (record_call (Call_exists p) st)"
  "searched st (record_call (Call_isdir p) st)"
  "searched st (record_call (Call_ParsePredefinedPyTD subdir name) st)"
  "searched st (record_call (Call_parse_type_definition subdir name) st)"
  by (simp_all add: searched_record_any)

lemma searched_record2:
  "searched st s \<Longrightarrow> searched st (record_call (Call_exists p) s)"
  "searched st s \<Longrightarrow> searched st (record_call (Call_isdir p) s)"
  "searched st s \<Longrightarrow> searched st (record_call (Call_ParsePredefinedPyTD subdir name) s)"
  "searched st s \<Longrightarrow> searched st (record_call (Call_parse_type_definition subdir name) s)"
  by (blast intro: searched_trans searched_record)+

lemma searched_only_calls:
  assumes "searched st s"
  shows "only_calls st s"
proof -
  from assms obtain evs where "calls s = calls st @ evs" unfolding searched_def by blast
  then have "prefix (calls st) (calls s)" by simp
  with assms show ?thesis by (simp add: searched_def only_calls_def)
qed

lemma as_found_cases:
  "(case as_found r of
      None \<Rightarrow> None
    | Some (Inl e, s) \<Rightarrow> Some (Inl e, s)
    | Some (Inr None, s) \<Rightarrow> k s
    | Some (Inr (Some t), s) \<Rightarrow> Some (Inr (Some t), s)) = as_found r"
  by (auto simp: as_found_def split: option.splits sum.splits prod.splits)

lemma load_pyi_search:
  "\<exists>s. searched st s \<and>
     u_load_pyi imp env st path name =
       (case pyi_file env path of
          None \<Rightarrow> Some (Inr None, s)
        | Some full_path \<Rightarrow> as_found (u_load_file imp env s name full_path None))"
proof (cases "pyi_file env path")
  case None
  then show ?thesis
    by (auto simp: u_load_pyi_def pyi_file_def Let_def searched_refl searched_record
          searched_record2 split: option.splits if_splits)
next
  case (Some full_path)
  let ?s = "record_call (Call_isdir full_path) (record_call (Call_exists full_path) st)"
  have "searched st ?s"
    by (intro searched_record2 searched_record)
  with Some show ?thesis
    by (intro exI[of _ ?s])
       (auto simp: u_load_pyi_def pyi_file_def Let_def split: option.splits if_splits)
qed

lemma load_builtin_search:
  "\<exists>s. searched st s \<and>
     u_load_builtin imp env st subdir name =
       (case tier_bundled env subdir name of
          Inl e \<Rightarrow> Some (Inl e, s)
        | Inr None \<Rightarrow> Some (Inr None, s)
        | Inr (Some tree) \<Rightarrow> as_found (u_load_file imp env s name (PREFIX @ name) (Some tree)))"
proof -
  let ?s1 = "record_call (Call_ParsePredefinedPyTD subdir name) st"
  let ?s2 = "record_call (Call_parse_type_definition subdir name) ?s1"
  have s1: "searched st ?s1" by (rule searched_record)
  have s2: "searched st ?s2" using s1 by (rule searched_record2)
  show ?thesis
  proof (cases "ParsePredefinedPyTD env subdir name (python_version (options env))")
    case (Inl e)
    with s1 show ?thesis
      by (intro exI[of _ ?s1]) (simp add: u_load_builtin_def tier_bundled_def)
  next
    case (Inr own)
    show ?thesis
    proof (cases "own = None \<and> typeshed (options env)")
      case True
      with Inr s2 show ?thesis
        by (intro exI[of _ ?s2])
           (simp add: u_load_builtin_def tier_bundled_def split: sum.splits option.splits)
    next
      case False
      with Inr s1 show ?thesis
        by (intro exI[of _ ?s1])
           (auto simp: u_load_builtin_def tier_bundled_def split: sum.splits option.splits)
    qed
  qed
qed

lemma import_file_search:
  "\<exists>s. searched st s \<and>
     u_import_file imp env st name name_split dirs =
       (case tier_search_path env name name_split dirs of
          None \<Rightarrow> Some (Inr None, s)
        | Some (fname, given) \<Rightarrow> as_found (u_load_file imp env s name fname given))"
proof (induction dirs arbitrary: st)
  case Nil
  show ?case by (simp add: searched_refl)
next
  case (Cons searchdir dirs)
  let ?path = "os_path_join searchdir name_split"
  let ?init = "os_path_join ?path [''__init__'']"
  obtain s1 where s1: "searched st s1"
    and l1: "u_load_pyi imp env st ?init name =
       (case pyi_file env ?init of
          None \<Rightarrow> Some (Inr None, s1)
        | Some full_path \<Rightarrow> as_found (u_load_file imp env s1 name full_path None))"
    using load_pyi_search by blast
  show ?case
  proof (cases "pyi_file env ?init")
    case (Some full_path)
    with s1 l1 show ?thesis
      by (auto simp: Let_def as_found_cases intro!: exI[of _ s1])
  next
    case None
    note init_none = this
    let ?s2 = "record_call (Call_isdir ?path) s1"
    have s2: "searched st ?s2" using s1 by (rule searched_record2)
    show ?thesis
    proof (cases "path_isdir env ?path")
      case True
      with init_none l1 s2 show ?thesis
        by (auto simp: Let_def u_create_empty_def intro!: exI[of _ ?s2])
    next
      case False
      obtain s3 where s3: "searched ?s2 s3"
        and l3: "u_load_pyi imp env ?s2 ?path name =
           (case pyi_file env ?path of
              None \<Rightarrow> Some (Inr None, s3)
            | Some full_path \<Rightarrow> as_found (u_load_file imp env s3 name full_path None))"
        using load_pyi_search by blast
      have s3': "searched st s3" using s2 s3 by (rule searched_trans)
      show ?thesis
      proof (cases "pyi_file env ?path")
        case (Some full_path)
        with init_none l1 False l3 s3' show ?thesis
          by (auto simp: Let_def as_found_cases intro!: exI[of _ s3])
      next
        case None
        obtain s4 where s4: "searched s3 s4"
          and l4: "u_import_file imp env s3 name name_split dirs =
             (case tier_search_path env name name_split dirs of
                None \<Rightarrow> Some (Inr None, s4)
              | Some (fname, given) \<Rightarrow> as_found (u_load_file imp env s4 name fname given))"
          using Cons.IH by blast
        have "searched st s4" using s3' s4 by (rule searched_trans)
        with init_none l1 False l3 None l4 show ?thesis
          by (auto simp: Let_def intro!: exI[of _ s4])
      qed
    qed
  qed
qed

lemma import_name_body_search:
  assumes "CHR ''/'' \<notin> set name"
  shows "\<exists>s. searched st s \<and>
     u_import_name_body imp env st name =
       (case search_tiers env name of
          Inl e \<Rightarrow> Some (Inl e, s)
        | Inr None \<Rightarrow> Some (Inr None, s)
        | Inr (Some (fname, given)) \<Rightarrow> as_found (u_load_file imp env s name fname given))"
proof -
  obtain s1 where s1: "searched st s1"
    and l1: "u_load_builtin imp env st ''builtins'' name =
       (case tier_bundled env ''builtins'' name of
          Inl e \<Rightarrow> Some (Inl e, s1)
        | Inr None \<Rightarrow> Some (Inr None, s1)
        | Inr (Some tree) \<Rightarrow> as_found (u_load_file imp env s1 name (PREFIX @ name) (Some tree)))"
    using load_builtin_search by blast
  obtain s2 where s2: "searched s1 s2"
    and l2: "u_import_file imp env s1 name (split_dot name) (pythonpath (options env)) =
       (case tier_search_path env name (split_dot name) (pythonpath (options env)) of
          None \<Rightarrow> Some (Inr None, s2)
        | Some (fname, given) \<Rightarrow> as_found (u_load_file imp env s2 name fname given))"
    using import_file_search by blast
  obtain s3 where s3: "searched s2 s3"
    and l3: "u_load_builtin imp env s2 ''stdlib'' name =
       (case tier_bundled env ''stdlib'' name of
          Inl e \<Rightarrow> Some (Inl e, s3)
        | Inr None \<Rightarrow> Some (Inr None, s3)
        | Inr (Some tree) \<Rightarrow> as_found (u_load_file imp env s3 name (PREFIX @ name) (Some tree)))"
    using load_builtin_search by blast
  have s2': "searched st s2" using s1 s2 by (rule searched_trans)
  have s3': "searched st s3" using s2' s3 by (rule searched_trans)
  show ?thesis
  proof (cases "tier_bundled env ''builtins'' name")
    case (Inl e)
    with assms s1 l1 show ?thesis
      by (auto simp: u_import_name_body_def search_tiers_def intro!: exI[of _ s1])
  next
    case (Inr own)
    show ?thesis
    proof (cases own)
      case (Some tree)
      with Inr assms s1 l1 show ?thesis
        by (auto simp: u_import_name_body_def search_tiers_def as_found_cases intro!: exI[of _ s1])
    next
      case None
      note t1 = Inr None
      show ?thesis
      proof (cases "tier_search_path env name (split_dot name) (pythonpath (options env))")
        case (Some hit)
        with t1 assms s2' l1 l2 show ?thesis
          by (cases hit) (auto simp: u_import_name_body_def search_tiers_def as_found_cases
                intro!: exI[of _ s2])
      next
        case None
        with t1 assms s3' l1 l2 l3 show ?thesis
          by (auto simp: u_import_name_body_def search_tiers_def as_found_cases
                split: sum.splits option.splits intro!: exI[of _ s3])
      qed
    qed
  qed
qed

subsection \<open>The registry only grows\<close>

lemma grows_refl: "grows st st"
  by (simp add: grows_def)

lemma grows_trans:
  assumes "grows a b" and "grows b c"
  shows "grows a c"
proof -
  have new: "dirty m" if "map_of (modules a) n = None" and "map_of (modules c) n = Some m" for n m
  proof (cases "map_of (modules b) n")
    case None
    with assms(2) that show ?thesis by (simp add: grows_def)
  next
    case (Some m')
    with assms that show ?thesis by (auto simp: grows_def)
  qed
  from assms new show ?thesis
    unfolding grows_def by (auto intro: prefix_order.trans)
qed

lemma only_calls_grows: "only_calls st s \<Longrightarrow> grows st s"
  by (simp add: only_calls_def grows_def)

lemma grows_invalidate: "grows st (st\<lparr>concatenated := None\<rparr>)"
  by (simp add: grows_def)

lemma grows_registered: "grows st s \<Longrightarrow> registered st n \<Longrightarrow> registered s n"
  by (auto simp: grows_def registered_def)

lemma map_of_retree:
  "map_of (map (\<lambda>(k, m). if k = name then (k, f m) else (k, m)) xs) n =
     (if n = name then map_option f (map_of xs n) else map_of xs n)"
  by (induction xs) auto

lemma keys_retree:
  "map fst (map (\<lambda>(k, m). if k = name then (k, f m) else (k, m)) xs) = map fst xs"
  by (induction xs) auto

lemma map_of_set_ast:
  "map_of (modules (set_ast name t s)) n =
     (if n = name then map_option (\<lambda>m. m\<lparr>ast := t\<rparr>) (map_of (modules s) n)
      else map_of (modules s) n)"
  by (simp add: set_ast_def map_of_retree)

lemma keys_set_ast: "map fst (modules (set_ast name t s)) = map fst (modules s)"
  by (auto simp: set_ast_def split: prod.splits)

lemma calls_set_ast: "calls (set_ast name t s) = calls s"
  by (simp add: set_ast_def)

lemma registered_set_ast: "registered (set_ast name t s) n = registered s n"
  by (simp add: registered_def map_of_set_ast)


lemma set_ast_twice: "set_ast name t (set_ast name t' s) = set_ast name t s"
  by (auto simp: set_ast_def split: prod.splits)

lemma grows_set_ast:
  assumes "\<not> registered st name" and "grows st s"
  shows "grows st (set_ast name t s)"
  using assms
  unfolding grows_def registered_def
  by (auto simp: map_of_set_ast keys_set_ast calls_set_ast)


lemma map_of_set_module:
  "map_of (modules (set_module name m st)) = (map_of (modules st))(name \<mapsto> m)"
  by (simp add: set_module_def update_conv')

lemma keys_set_module:
  "distinct (map fst (modules st)) \<Longrightarrow> distinct (map fst (modules (set_module name m st)))"
  by (simp add: set_module_def distinct_update)

lemma calls_set_module: "calls (set_module name m st) = calls st"
  by (simp add: set_module_def)

lemma grows_set_module:
  assumes "\<not> registered st name"
  shows "grows st (set_module name (Module_init name fname tree) st)"
proof -
  from assms have none: "map_of (modules st) name = None"
    by (simp add: registered_def)
  have old: "map_of (modules (set_module name (Module_init name fname tree) st)) n = Some m"
    if "map_of (modules st) n = Some m" for n m
    using that none by (cases "n = name") (simp_all add: map_of_set_module)
  have new: "dirty m"
    if "map_of (modules st) n = None"
      and "map_of (modules (set_module name (Module_init name fname tree) st)) n = Some m" for n m
    using that by (cases "n = name") (auto simp: map_of_set_module Module_init_def)
  show ?thesis
    unfolding grows_def
    using old new by (simp add: keys_set_module calls_set_module)
qed

lemma registered_set_module: "registered (set_module name m st) name"
  by (simp add: registered_def map_of_set_module)

lemma grows_del_module:
  assumes "\<not> registered st name" and "grows st s" and "registered s name"
  shows "\<exists>s'. del_module name s = Inr s' \<and> grows st s' \<and> \<not> registered s' name"
proof -
  let ?s' = "s\<lparr>modules := AList.delete name (modules s)\<rparr>"
  from assms(1) have none: "map_of (modules st) name = None"
    by (simp add: registered_def)
  have m: "map_of (AList.delete name (modules s)) = (map_of (modules s))(name := None)"
    by (simp add: delete_conv')
  have d: "distinct (map fst (modules s)) \<Longrightarrow> distinct (map fst (modules ?s'))"
    by (simp add: distinct_delete)
  have sel: "modules ?s' = AList.delete name (modules s)"
    by simp
  have old: "map_of (modules ?s') n = Some x" if "map_of (modules st) n = Some x" for n x
  proof -
    from that none have "n \<noteq> name" by auto
    moreover from that assms(2) have "map_of (modules s) n = Some x" by (simp add: grows_def)
    ultimately show ?thesis by (simp only: sel m) simp
  qed
  have new: "dirty x" if "map_of (modules st) n = None" and "map_of (modules ?s') n = Some x" for n x
  proof -
    from that(2) have "((map_of (modules s))(name := None)) n = Some x"
      by (simp only: sel m)
    then have "map_of (modules s) n = Some x"
      by (cases "n = name") simp_all
    with that(1) assms(2) show ?thesis by (simp add: grows_def)
  qed
  have g: "grows st ?s'"
    unfolding grows_def
  proof (intro conjI allI impI)
    assume "distinct (map fst (modules st))"
    with assms(2) have "distinct (map fst (modules s))" by (simp add: grows_def)
    then show "distinct (map fst (modules ?s'))" by (rule d)
  next
    fix n x assume "map_of (modules st) n = Some x"
    then show "map_of (modules ?s') n = Some x" by (rule old)
  next
    fix n x assume "map_of (modules st) n = None" and "map_of (modules ?s') n = Some x"
    then show "dirty x" by (rule new)
  next
    from assms(2) show "prefix (calls st) (calls ?s')" by (simp add: grows_def)
  qed
  have "\<not> registered ?s' name" by (simp only: registered_def sel m) simp
  moreover from assms(3) have "del_module name s = Inr ?s'" by (simp add: del_module_def)
  ultimately show ?thesis using g by blast
qed


lemma load_dependencies_grows:
  assumes "growing imp" and "load_dependencies imp st names = Some (r, st')"
  shows "grows st st'"
  using assms(2)
proof (induction names arbitrary: st)
  case Nil
  then show ?case by (simp add: grows_refl)
next
  case (Cons name names)
  show ?case
  proof (cases "registered st name")
    case True
    with Cons show ?thesis by simp
  next
    case False
    with Cons.prems obtain x s where imp: "imp st name = Some (x, s)"
      by (auto split: option.splits)
    with assms(1) have g: "grows st s" by (auto simp: growing_def)
    show ?thesis
    proof (cases x)
      case (Inl e)
      with False imp Cons.prems g show ?thesis by simp
    next
      case (Inr found)
      show ?thesis
      proof (cases found)
        case None
        with Inr False imp Cons.prems g show ?thesis by simp
      next
        case (Some other_ast)
        with Inr False imp Cons.prems have "load_dependencies imp s names = Some (r, st')"
          by simp
        then have "grows s st'" by (rule Cons.IH)
        with g show ?thesis by (rule grows_trans)
      qed
    qed
  qed
qed

lemma resolve_grows:
  assumes "growing imp"
    and "u_load_and_resolve_ast_dependencies imp env st tree an = Some (x, s)"
  shows "grows st s"
proof (cases "CollectDependencies env tree = []")
  case True
  with assms(2) show ?thesis
    by (simp add: u_load_and_resolve_ast_dependencies_def grows_refl)
next
  case False
  with assms(2) obtain r where "load_dependencies imp st (CollectDependencies env tree) = Some (r, s)"
    by (auto simp: u_load_and_resolve_ast_dependencies_def Let_def
          split: option.splits sum.splits prod.splits)
  with assms(1) show ?thesis by (rule load_dependencies_grows)
qed

lemma load_file_try_shape:
  assumes "load_file_try imp env st2 name tree = Some (r, st3)"
  shows "\<exists>x s. u_load_and_resolve_ast_dependencies imp env st2 tree (Some name) = Some (x, s) \<and>
           (st3 = s \<or> (\<exists>t. st3 = set_ast name t s)) \<and>
           (\<forall>t. r = Inr t \<longrightarrow> st3 = set_ast name t s)"
proof (cases "u_load_and_resolve_ast_dependencies imp env st2 tree (Some name)")
  case None
  with assms show ?thesis by (simp add: load_file_try_def)
next
  case (Some p)
  obtain x s where p: "p = (x, s)" by (cases p)
  show ?thesis
  proof (cases x)
    case (Inl e)
    with Some p assms show ?thesis by (auto simp: load_file_try_def)
  next
    case (Inr t1)
    with Some p assms show ?thesis
      by (auto simp: load_file_try_def Let_def set_ast_twice split: sum.splits)
  qed
qed

subsection \<open>What \<^verbatim>\<open>_load_file\<close> leaves behind\<close>

lemma grows_same_modules:
  "modules s = modules st \<Longrightarrow> prefix (calls st) (calls s) \<Longrightarrow> grows st s"
  by (simp add: grows_def)

lemma load_file_try_post:
  assumes "growing imp" and "\<not> registered st1 name"
    and "load_file_try imp env (set_module name (Module_init name fname tree) st1) name tree
           = Some (r, st3)"
  shows "grows st1 st3 \<and> registered st3 name \<and>
         (\<forall>t. r = Inr t \<longrightarrow> map_option ast (map_of (modules st3) name) = Some t)"
proof -
  let ?st2 = "set_module name (Module_init name fname tree) st1"
  from load_file_try_shape[OF assms(3)] obtain x s where
    res: "u_load_and_resolve_ast_dependencies imp env ?st2 tree (Some name) = Some (x, s)"
    and shape: "st3 = s \<or> (\<exists>t. st3 = set_ast name t s)"
    and final: "\<forall>t. r = Inr t \<longrightarrow> st3 = set_ast name t s"
    by blast
  have "grows ?st2 s" using assms(1) res by (rule resolve_grows)
  with grows_set_module[OF assms(2)] have g: "grows st1 s" and reg: "registered s name"
    by (auto intro: grows_trans grows_registered registered_set_module)
  from shape g have g3: "grows st1 st3"
    by (auto intro: grows_set_ast[OF assms(2)])
  from shape reg have reg3: "registered st3 name"
    by (auto simp: registered_set_ast)
  have "map_option ast (map_of (modules st3) name) = Some t" if "r = Inr t" for t
  proof -
    from that final have "st3 = set_ast name t s" by simp
    moreover from reg obtain m where "map_of (modules s) name = Some m"
      by (auto simp: registered_def)
    ultimately show ?thesis by (simp add: map_of_set_ast)
  qed
  with g3 reg3 show ?thesis by blast
qed

lemma load_file_post:
  assumes "growing imp" and "u_load_file imp env st name fname given = Some (r, st')"
  shows "load_post st name (case r of Inl e \<Rightarrow> Inl e | Inr t \<Rightarrow> Inr (Some t)) st'"
proof (cases "registered st name")
  case True
  then obtain m where "map_of (modules st) name = Some m"
    by (auto simp: registered_def)
  with assms(2) have "st' = st\<lparr>concatenated := None\<rparr>"
    by (auto simp: u_load_file_def Let_def split: if_splits)
  with True show ?thesis
    by (simp add: load_post_def grows_same_modules)
next
  case False
  then have none: "map_of (modules st) name = None" by (simp add: registered_def)
  define st1 where "st1 =
    (case given of
       Some t \<Rightarrow> st\<lparr>concatenated := None\<rparr>
     | None \<Rightarrow> record_call (Call_ParsePyTD fname name) (st\<lparr>concatenated := None\<rparr>))"
  have m1: "modules st1 = modules st" and c1: "prefix (calls st) (calls st1)"
    by (simp_all add: st1_def record_call_def split: option.splits)
  then have g1: "grows st st1" by (rule grows_same_modules)
  from False m1 have unreg1: "\<not> registered st1 name" by (simp add: registered_def)
  show ?thesis
  proof (cases "source_tree env name fname given")
    case (Inl e)
    with assms(2) none have "r = Inl e" and "st' = st1"
      by (auto simp: u_load_file_def source_tree_def st1_def Let_def split: option.splits sum.splits)
    with False g1 m1 show ?thesis by (simp add: load_post_def registered_def)
  next
    case (Inr tree)
    let ?st2 = "set_module name (Module_init name fname tree) st1"
    from Inr assms(2) none have run:
      "(case load_file_try imp env ?st2 name tree of
          None \<Rightarrow> None
        | Some (Inr final, st3) \<Rightarrow> Some (Inr final, st3)
        | Some (Inl e, st3) \<Rightarrow>
            (case del_module name st3 of
               Inl e' \<Rightarrow> Some (Inl e', st3)
             | Inr st4 \<Rightarrow> Some (Inl e, st4))) = Some (r, st')"
      by (auto simp: u_load_file_def source_tree_def st1_def Let_def split: option.splits sum.splits)
    then obtain r3 st3 where try3: "load_file_try imp env ?st2 name tree = Some (r3, st3)"
      by (auto split: option.splits)
    from load_file_try_post[OF assms(1) unreg1 try3]
    have g3: "grows st1 st3" and reg3: "registered st3 name"
      and fin: "\<forall>t. r3 = Inr t \<longrightarrow> map_option ast (map_of (modules st3) name) = Some t"
      by blast+
    show ?thesis
    proof (cases r3)
      case (Inr final)
      with run try3 have "r = Inr final" and "st' = st3" by simp_all
      with False g1 g3 fin Inr show ?thesis
        by (auto simp: load_post_def intro: grows_trans)
    next
      case (Inl e)
      from grows_del_module[OF unreg1 g3 reg3] obtain st4 where
        del: "del_module name st3 = Inr st4" and g4: "grows st1 st4"
        and unreg4: "\<not> registered st4 name" by blast
      with Inl run try3 have "r = Inl e" and "st' = st4" by simp_all
      with False g1 g4 unreg4 show ?thesis
        by (auto simp: load_post_def intro: grows_trans)
    qed
  qed
qed

subsection \<open>What \<^verbatim>\<open>_import_name\<close> leaves behind\<close>

lemma load_post_only_calls:
  assumes "only_calls st s" and "load_post s name r st'"
  shows "load_post st name r st'"
proof -
  from assms(1) have m: "modules s = modules st" by (simp add: only_calls_def)
  then have reg: "registered s name = registered st name" by (simp add: registered_def)
  from assms have "grows st st'"
    by (auto simp: load_post_def intro: grows_trans only_calls_grows)
  with assms(2) m reg show ?thesis
    by (auto simp: load_post_def split: sum.splits option.splits if_splits)
qed

lemma load_post_quiet:
  assumes "only_calls st s" and "r = Inl e \<or> r = Inr None"
  shows "load_post st name r s"
  using assms
  by (auto simp: load_post_def only_calls_grows only_calls_def registered_def)

lemma as_found_Some:
  assumes "as_found x = Some (r, st')"
  shows "\<exists>r0. x = Some (r0, st') \<and> r = (case r0 of Inl e \<Rightarrow> Inl e | Inr t \<Rightarrow> Inr (Some t))"
  using assms by (auto simp: as_found_def split: option.splits sum.splits prod.splits)

lemma import_name_body_post:
  assumes "growing imp" and "u_import_name_body imp env st name = Some (r, st')"
  shows "load_post st name r st'"
proof (cases "CHR ''/'' \<in> set name")
  case True
  with assms(2) have "r = Inl (AssertionError_sep name)" and "st' = st"
    by (simp_all add: u_import_name_body_def)
  then show ?thesis by (simp add: load_post_quiet only_calls_refl)
next
  case False
  from import_name_body_search[OF False, of st imp env] obtain s where
    "searched st s"
    and run: "u_import_name_body imp env st name =
       (case search_tiers env name of
          Inl e \<Rightarrow> Some (Inl e, s)
        | Inr None \<Rightarrow> Some (Inr None, s)
        | Inr (Some (fname, given)) \<Rightarrow> as_found (u_load_file imp env s name fname given))"
    by blast
  then have s: "only_calls st s" by (simp add: searched_only_calls)
  show ?thesis
  proof (cases "search_tiers env name")
    case (Inl e)
    with run assms(2) s show ?thesis by (auto intro: load_post_quiet)
  next
    case (Inr hit)
    show ?thesis
    proof (cases hit)
      case None
      with Inr run assms(2) s show ?thesis by (auto intro: load_post_quiet)
    next
      case (Some src)
      obtain fname given where src: "src = (fname, given)" by (cases src)
      with Some Inr run assms(2) have "as_found (u_load_file imp env s name fname given) = Some (r, st')"
        by simp
      from as_found_Some[OF this] obtain r0 where
        "u_load_file imp env s name fname given = Some (r0, st')"
        and r: "r = (case r0 of Inl e \<Rightarrow> Inl e | Inr t \<Rightarrow> Inr (Some t))" by blast
      with assms(1) have "load_post s name r st'" by (simp add: load_file_post)
      with s show ?thesis by (rule load_post_only_calls)
    qed
  qed
qed

lemma import_name_growing: "growing (u_import_name depth env)"
proof (induction depth)
  case 0
  show ?case by (simp add: growing_def)
next
  case (Suc depth)
  show ?case
    unfolding growing_def
  proof (intro allI impI)
    fix st name r st'
    assume "u_import_name (Suc depth) env st name = Some (r, st')"
    then have "u_import_name_body (u_import_name depth env) env st name = Some (r, st')"
      by simp
    with Suc have "load_post st name r st'" by (rule import_name_body_post)
    then show "grows st st'" by (simp add: load_post_def)
  qed
qed

lemma import_name_post:
  assumes "u_import_name depth env st name = Some (r, st')"
  shows "load_post st name r st'"
proof (cases depth)
  case 0
  with assms show ?thesis by simp
next
  case (Suc d)
  with assms have "u_import_name_body (u_import_name d env) env st name = Some (r, st')"
    by simp
  with import_name_growing show ?thesis by (rule import_name_body_post)
qed

subsection \<open>The sweep\<close>

lemma map_of_clear_dirty:
  "map_of (modules (clear_dirty name s)) n =
     (if n = name then map_option (\<lambda>m. m\<lparr>dirty := False\<rparr>) (map_of (modules s) n)
      else map_of (modules s) n)"
  by (simp add: clear_dirty_def map_of_retree)

lemma keys_clear_dirty: "map fst (modules (clear_dirty name s)) = map fst (modules s)"
  by (auto simp: clear_dirty_def split: prod.splits)

lemma calls_clear_dirty: "calls (clear_dirty name s) = calls s"
  by (simp add: clear_dirty_def)

lemma finish_ast_verified:
  assumes "u_finish_ast env st tree = (None, t)"
  shows "VerifyLookup env t = None"
  using assms by (auto simp: u_finish_ast_def split: sum.splits option.splits)

text \<open>One step of the sweep, as a function of the state.\<close>

lemma lookup_all_loop_step:
  "lookup_all_loop env st (name # names) = (r, st') \<Longrightarrow>
     (\<exists>m. map_of (modules st) name = Some m \<and> dirty m \<and>
        (\<exists>e t. u_finish_ast env st (ast m) = (Some e, t) \<and> r = Some e \<and> st' = set_ast name t st)) \<or>
     (\<exists>m t. map_of (modules st) name = Some m \<and> dirty m \<and>
        u_finish_ast env st (ast m) = (None, t) \<and>
        lookup_all_loop env (clear_dirty name (set_ast name t st)) names = (r, st')) \<or>
     ((\<forall>m. map_of (modules st) name = Some m \<longrightarrow> \<not> dirty m) \<and>
        lookup_all_loop env st names = (r, st'))"
  by (auto split: option.splits if_splits prod.splits)

lemma lookup_all_loop_unchanged:
  assumes "lookup_all_loop env st names = (r, st')"
    and "map_of (modules st) n = Some m" and "\<not> dirty m"
  shows "map_of (modules st') n = Some m"
  using assms
proof (induction names arbitrary: st)
  case Nil
  then show ?case by simp
next
  case (Cons name names)
  from lookup_all_loop_step[OF Cons.prems(1)] show ?case
  proof (elim disjE exE conjE)
    fix m' e t
    assume "map_of (modules st) name = Some m'" "dirty m'" "st' = set_ast name t st"
    with Cons.prems(2,3) show ?thesis by (auto simp: map_of_set_ast)
  next
    fix m' t
    assume a: "map_of (modules st) name = Some m'" "dirty m'"
      and l: "lookup_all_loop env (clear_dirty name (set_ast name t st)) names = (r, st')"
    from a Cons.prems(2,3) have "n \<noteq> name" by auto
    with Cons.prems(2) have "map_of (modules (clear_dirty name (set_ast name t st))) n = Some m"
      by (simp add: map_of_clear_dirty map_of_set_ast)
    from Cons.IH[OF l this Cons.prems(3)] show ?thesis .
  next
    assume "lookup_all_loop env st names = (r, st')"
    from Cons.IH[OF this Cons.prems(2,3)] show ?thesis .
  qed
qed

lemma lookup_all_loop_keys:
  assumes "lookup_all_loop env st names = (r, st')"
  shows "map fst (modules st') = map fst (modules st) \<and> calls st' = calls st"
  using assms
proof (induction names arbitrary: st)
  case Nil
  then show ?case by simp
next
  case (Cons name names)
  from lookup_all_loop_step[OF Cons.prems(1)] show ?case
  proof (elim disjE exE conjE)
    fix m' e t
    assume "st' = set_ast name t st"
    then show ?thesis by (simp add: keys_set_ast calls_set_ast)
  next
    fix m' t
    assume "lookup_all_loop env (clear_dirty name (set_ast name t st)) names = (r, st')"
    from Cons.IH[OF this] show ?thesis
      by (simp add: keys_set_ast calls_set_ast keys_clear_dirty calls_clear_dirty)
  next
    assume "lookup_all_loop env st names = (r, st')"
    then show ?thesis by (rule Cons.IH)
  qed
qed


lemma lookup_all_loop_clean:
  assumes "lookup_all_loop env st names = (None, st')"
    and "n \<in> set names" and "map_of (modules st') n = Some m"
  shows "\<not> dirty m"
  using assms
proof (induction names arbitrary: st)
  case Nil
  then show ?case by simp
next
  case (Cons name names)
  from lookup_all_loop_step[OF Cons.prems(1)] show ?case
  proof (elim disjE exE conjE)
    fix m' e t
    assume "None = Some e"
    then show ?thesis by simp
  next
    fix m' t
    assume a: "map_of (modules st) name = Some m'"
      and l: "lookup_all_loop env (clear_dirty name (set_ast name t st)) names = (None, st')"
    show ?thesis
    proof (cases "n = name")
      case True
      let ?m = "m'\<lparr>ast := t, dirty := False\<rparr>"
      from a have "map_of (modules (clear_dirty name (set_ast name t st))) name = Some ?m"
        by (simp add: map_of_clear_dirty map_of_set_ast)
      from lookup_all_loop_unchanged[OF l this] have "map_of (modules st') name = Some ?m"
        by simp
      with True Cons.prems(3) show ?thesis by auto
    next
      case False
      with Cons.prems(2) have "n \<in> set names" by simp
      from Cons.IH[OF l this Cons.prems(3)] show ?thesis .
    qed
  next
    assume clean: "\<forall>m. map_of (modules st) name = Some m \<longrightarrow> \<not> dirty m"
      and l: "lookup_all_loop env st names = (None, st')"
    show ?thesis
    proof (cases "n = name")
      case True
      show ?thesis
      proof (cases "map_of (modules st) name")
        case None
        then have "name \<notin> fst ` set (modules st)" by (simp add: map_of_eq_None_iff)
        with lookup_all_loop_keys[OF l] have "name \<notin> fst ` set (modules st')"
          by (metis set_map)
        then have "map_of (modules st') name = None" by (simp add: map_of_eq_None_iff)
        with True Cons.prems(3) show ?thesis by simp
      next
        case (Some m0)
        with clean have nd: "\<not> dirty m0" by simp
        from lookup_all_loop_unchanged[OF l Some nd] True Cons.prems(3)
        have "m = m0" by simp
        with nd show ?thesis by simp
      qed
    next
      case False
      with Cons.prems(2) have "n \<in> set names" by simp
      from Cons.IH[OF l this Cons.prems(3)] show ?thesis .
    qed
  qed
qed

lemma lookup_all_loop_ok:
  assumes "lookup_all_loop env st names = (r, st')" and "registry_ok env st"
  shows "registry_ok env st'"
  using assms
proof (induction names arbitrary: st)
  case Nil
  then show ?case by simp
next
  case (Cons name names)
  from lookup_all_loop_step[OF Cons.prems(1)] show ?case
  proof (elim disjE exE conjE)
    fix m' e t
    assume "dirty m'" "map_of (modules st) name = Some m'" "st' = set_ast name t st"
    with Cons.prems(2) show ?thesis
      by (auto simp: registry_ok_def map_of_set_ast keys_set_ast split: if_splits)
  next
    fix m' t
    assume a: "map_of (modules st) name = Some m'"
      and f: "u_finish_ast env st (ast m') = (None, t)"
      and l: "lookup_all_loop env (clear_dirty name (set_ast name t st)) names = (r, st')"
    from f have "VerifyLookup env t = None" by (rule finish_ast_verified)
    with Cons.prems(2) a have "registry_ok env (clear_dirty name (set_ast name t st))"
      by (auto simp: registry_ok_def map_of_clear_dirty map_of_set_ast keys_set_ast
            keys_clear_dirty split: if_splits)
    with l show ?thesis by (rule Cons.IH)
  next
    assume "lookup_all_loop env st names = (r, st')"
    then show ?thesis using Cons.prems(2) by (rule Cons.IH)
  qed
qed

lemma sweep_all_clean:
  assumes "u_lookup_all_classes env st = (None, st')"
  shows "all_clean st'"
  unfolding all_clean_def
proof (intro allI impI)
  fix n m
  assume m: "map_of (modules st') n = Some m"
  from assms have l: "lookup_all_loop env st (map fst (modules st)) = (None, st')"
    by (simp add: u_lookup_all_classes_def)
  from m have "(n, m) \<in> set (modules st')" by (rule map_of_SomeD)
  then have "n \<in> set (map fst (modules st'))" by force
  with lookup_all_loop_keys[OF l] have "n \<in> set (map fst (modules st))"
    by simp
  from lookup_all_loop_clean[OF l this m] show "\<not> dirty m" .
qed

subsection \<open>The public methods\<close>





lemma sweep_ok:
  assumes "u_lookup_all_classes env st = (r, st')" and "registry_ok env st"
  shows "registry_ok env st'"
proof -
  from assms(1) have "lookup_all_loop env st (map fst (modules st)) = (r, st')"
    by (simp add: u_lookup_all_classes_def)
  then show ?thesis using assms(2) by (rule lookup_all_loop_ok)
qed

lemma grows_old:
  "grows st st' \<Longrightarrow> map_of (modules st) n = Some m \<Longrightarrow> map_of (modules st') n = Some m"
  by (simp add: grows_def)

lemma grows_new:
  "grows st st' \<Longrightarrow> map_of (modules st) n = None \<Longrightarrow> map_of (modules st') n = Some m \<Longrightarrow> dirty m"
  unfolding grows_def by blast

lemma grows_distinct:
  "grows st st' \<Longrightarrow> distinct (map fst (modules st)) \<Longrightarrow> distinct (map fst (modules st'))"
  by (simp add: grows_def)

lemma registry_okD:
  "registry_ok env st \<Longrightarrow> map_of (modules st) n = Some m \<Longrightarrow> \<not> dirty m \<Longrightarrow>
     VerifyLookup env (ast m) = None"
  unfolding registry_ok_def by blast

lemma grows_registry_ok:
  assumes "registry_ok env st" and "grows st st'"
  shows "registry_ok env st'"
  unfolding registry_ok_def
proof (intro conjI allI impI)
  from assms(1) have "distinct (map fst (modules st))" by (simp add: registry_ok_def)
  with assms(2) show "distinct (map fst (modules st'))" by (rule grows_distinct)
next
  fix n m
  assume m: "map_of (modules st') n = Some m" and nd: "\<not> dirty m"
  show "VerifyLookup env (ast m) = None"
  proof (cases "map_of (modules st) n")
    case None
    from grows_new[OF assms(2) None m] nd show ?thesis by simp
  next
    case (Some m0)
    from grows_old[OF assms(2) Some] m have "m0 = m" by simp
    with Some have "map_of (modules st) n = Some m" by simp
    from registry_okD[OF assms(1) this nd] show ?thesis .
  qed
qed


lemma load_post_grows: "load_post st name r st' \<Longrightarrow> grows st st'"
  by (simp add: load_post_def)

lemma import_name_grows:
  assumes "u_import_name depth env st name = Some (r, st')"
  shows "grows st st'"
  using import_name_post[OF assms] by (rule load_post_grows)


lemma import_then_sweep_clean:
  assumes "registry_ok env st"
    and "import_then_sweep depth env st name = Some (Inr found, st')"
  shows "\<exists>found0 s. u_import_name depth env st name = Some (Inr found0, s) \<and>
           u_lookup_all_classes env s = (None, st') \<and> found = after_sweep st' name found0 \<and>
           all_clean st' \<and> registry_ok env st'"
proof -
  from assms(2) obtain r1 s1 where imp: "u_import_name depth env st name = Some (r1, s1)"
    by (auto simp: import_then_sweep_def split: option.splits)
  from grows_registry_ok[OF assms(1) import_name_grows[OF imp]]
  have ok1: "registry_ok env s1" .
  obtain r2 s2 where sw: "u_lookup_all_classes env s1 = (r2, s2)"
    by (cases "u_lookup_all_classes env s1")
  from imp sw assms(2) have eqs:
    "\<exists>found0. r1 = Inr found0 \<and> found = after_sweep st' name found0 \<and> r2 = None \<and> st' = s2"
    by (auto simp: import_then_sweep_def split: sum.splits option.splits)
  then obtain found0 where f0: "r1 = Inr found0" "found = after_sweep st' name found0"
    "r2 = None" "st' = s2" by blast
  with sw have sw': "u_lookup_all_classes env s1 = (None, st')" by simp
  from sweep_all_clean[OF sw'] sweep_ok[OF sw' ok1] imp f0 sw'
  show ?thesis by blast
qed




lemma resolve_ast_clean:
  assumes "registry_ok env st"
    and "resolve_ast depth env st tree = Some (Inr t', st')"
  shows "all_clean st' \<and> registry_ok env st'"
proof -
  from assms(2) obtain t where pp: "u_postprocess_pyi env tree = Inr t"
    by (auto simp: resolve_ast_def split: sum.splits)
  with assms(2) obtain r1 s1 where res:
    "u_load_and_resolve_ast_dependencies (u_import_name depth env) env st t None = Some (r1, s1)"
    by (auto simp: resolve_ast_def split: option.splits)
  from resolve_grows[OF import_name_growing res] have g: "grows st s1" .
  from grows_registry_ok[OF assms(1) g] have ok1: "registry_ok env s1" .
  obtain r2 s2 where sw: "u_lookup_all_classes env s1 = (r2, s2)"
    by (cases "u_lookup_all_classes env s1")
  from pp res sw assms(2) have "r2 = None \<and> st' = s2"
    by (auto simp: resolve_ast_def split: sum.splits option.splits prod.splits)
  with sw have sw': "u_lookup_all_classes env s1 = (None, st')" by simp
  from sweep_all_clean[OF sw'] sweep_ok[OF sw' ok1] show ?thesis by simp
qed

lemma init_registry_ok:
  assumes "Loader_init env = Inr st0"
  shows "registry_ok env st0"
proof -
  from assms have "\<forall>n m. map_of (modules st0) n = Some m \<longrightarrow> dirty m"
    and "distinct (map fst (modules st0))"
    by (auto simp: Loader_init_def Let_def Module_init_def split: if_splits)
  then show ?thesis unfolding registry_ok_def by blast
qed

subsection \<open>A name that is not registered is parsed\<close>

lemma grows_calls: "grows st st' \<Longrightarrow> prefix (calls st) (calls st')"
  by (simp add: grows_def)

lemma load_file_parses:
  assumes "growing imp" and "\<not> registered st name"
    and "u_load_file imp env st name fname None = Some (r, st')"
  shows "prefix (calls st @ [Call_ParsePyTD fname name]) (calls st')"
proof -
  from assms(2) have none: "map_of (modules st) name = None" by (simp add: registered_def)
  let ?st1 = "record_call (Call_ParsePyTD fname name) (st\<lparr>concatenated := None\<rparr>)"
  have c1: "calls ?st1 = calls st @ [Call_ParsePyTD fname name]"
    by (simp add: record_call_def)
  from assms(2) have unreg1: "\<not> registered ?st1 name"
    by (simp add: registered_def record_call_def)
  show ?thesis
  proof (cases "source_tree env name fname None")
    case (Inl e)
    with assms(3) none have "st' = ?st1"
      by (auto simp: u_load_file_def source_tree_def Let_def split: sum.splits)
    with c1 show ?thesis by simp
  next
    case (Inr tree)
    let ?st2 = "set_module name (Module_init name fname tree) ?st1"
    from Inr assms(3) none have run:
      "(case load_file_try imp env ?st2 name tree of
          None \<Rightarrow> None
        | Some (Inr final, st3) \<Rightarrow> Some (Inr final, st3)
        | Some (Inl e, st3) \<Rightarrow>
            (case del_module name st3 of
               Inl e' \<Rightarrow> Some (Inl e', st3)
             | Inr st4 \<Rightarrow> Some (Inl e, st4))) = Some (r, st')"
      by (auto simp: u_load_file_def source_tree_def Let_def split: sum.splits)
    then obtain r3 st3 where try3: "load_file_try imp env ?st2 name tree = Some (r3, st3)"
      by (auto split: option.splits)
    from load_file_try_post[OF assms(1) unreg1 try3]
    have g3: "grows ?st1 st3" and reg3: "registered st3 name" by blast+
    have "grows ?st1 st'"
    proof (cases r3)
      case (Inr final)
      with run try3 have "st' = st3" by simp
      with g3 show ?thesis by simp
    next
      case (Inl e)
      from grows_del_module[OF unreg1 g3 reg3] obtain st4 where
        "del_module name st3 = Inr st4" and g4: "grows ?st1 st4" by blast
      with Inl run try3 have "st' = st4" by simp
      with g4 show ?thesis by simp
    qed
    from grows_calls[OF this] c1 show ?thesis by simp
  qed
qed


subsection \<open>The relative imports\<close>

lemma import_relative_name_cases:
  assumes "import_relative_name depth env st name = Some (r, st')"
  shows "(r = Inl ValueError_non_package \<and> st' = st) \<or>
         (\<exists>n. import_then_sweep depth env st n = Some (r, st'))"
  using assms by (auto simp: import_relative_name_def split: option.splits)

lemma import_relative_cases:
  assumes "import_relative depth env st level = Some (r, st')"
  shows "((r = Inl AssertionError_level \<or> r = Inl ValueError_non_package) \<and> st' = st) \<or>
         (\<exists>n. import_then_sweep depth env st n = Some (r, st'))"
  using assms by (auto simp: import_relative_def split: option.splits if_splits)


subsection \<open>Importing a registered name\<close>












subsection \<open>Exceptions of the public imports\<close>

lemma finish_ast_error:
  assumes "sweep_raises_other_errors env" and "u_finish_ast env st tree = (Some e, t)"
  shows "\<not> is_DependencyNotFoundError e"
proof (cases "FillInModuleClasses env ((module_map st)([] \<mapsto> tree)) tree")
  case (Inl e')
  with assms(2) have "e = e'" by (simp add: u_finish_ast_def)
  with Inl assms(1) show ?thesis unfolding sweep_raises_other_errors_def by blast
next
  case (Inr t')
  show ?thesis
  proof (cases "VerifyLookup env t'")
    case (Some e')
    with Inr assms(2) have "e = e'" by (simp add: u_finish_ast_def)
    with Some assms(1) show ?thesis unfolding sweep_raises_other_errors_def by blast
  next
    case None
    with Inr assms(2) have "VerifyContainers env t' = Some e" by (auto simp: u_finish_ast_def)
    with assms(1) show ?thesis unfolding sweep_raises_other_errors_def by blast
  qed
qed

lemma lookup_all_loop_error:
  assumes "sweep_raises_other_errors env" and "lookup_all_loop env st names = (Some e, st')"
  shows "\<not> is_DependencyNotFoundError e"
  using assms(2)
proof (induction names arbitrary: st)
  case Nil
  then show ?case by simp
next
  case (Cons name names)
  from lookup_all_loop_step[OF Cons.prems] show ?case
  proof (elim disjE exE conjE)
    fix m e' t
    assume "u_finish_ast env st (ast m) = (Some e', t)" and "Some e = Some e'"
    with finish_ast_error[OF assms(1)] show ?thesis by auto
  next
    fix m t
    assume "lookup_all_loop env (clear_dirty name (set_ast name t st)) names = (Some e, st')"
    then show ?thesis by (rule Cons.IH)
  next
    assume "lookup_all_loop env st names = (Some e, st')"
    then show ?thesis by (rule Cons.IH)
  qed
qed

lemma sweep_calls:
  assumes "u_lookup_all_classes env st = (r, st')"
  shows "calls st' = calls st"
proof -
  from assms have "lookup_all_loop env st (map fst (modules st)) = (r, st')"
    by (simp add: u_lookup_all_classes_def)
  from lookup_all_loop_keys[OF this] show ?thesis by simp
qed

text \<open>Where a public import that raises got its exception from.\<close>

lemma import_then_sweep_error:
  assumes "import_then_sweep depth env st name = Some (Inl e, st')"
  shows "u_import_name depth env st name = Some (Inl e, st') \<or>
         (\<exists>found s. u_import_name depth env st name = Some (Inr found, s) \<and>
            u_lookup_all_classes env s = (Some e, st'))"
proof -
  from assms obtain r1 s1 where imp: "u_import_name depth env st name = Some (r1, s1)"
    by (auto simp: import_then_sweep_def split: option.splits)
  show ?thesis
  proof (cases r1)
    case (Inl e1)
    with imp assms show ?thesis by (simp add: import_then_sweep_def)
  next
    case (Inr found)
    obtain r2 s2 where sw: "u_lookup_all_classes env s1 = (r2, s2)"
      by (cases "u_lookup_all_classes env s1")
    with Inr imp assms have "r2 = Some e \<and> s2 = st'"
      by (auto simp: import_then_sweep_def split: option.splits)
    with Inr imp sw show ?thesis by simp
  qed
qed

lemma import_then_sweep_calls:
  assumes "import_then_sweep depth env st name = Some (r, st')"
  shows "\<exists>r1 s1. u_import_name depth env st name = Some (r1, s1) \<and> calls st' = calls s1"
proof -
  from assms obtain r1 s1 where imp: "u_import_name depth env st name = Some (r1, s1)"
    by (auto simp: import_then_sweep_def split: option.splits)
  show ?thesis
  proof (cases r1)
    case (Inl e1)
    with imp assms have "st' = s1" by (simp add: import_then_sweep_def)
    with imp show ?thesis by simp
  next
    case (Inr found)
    obtain r2 s2 where sw: "u_lookup_all_classes env s1 = (r2, s2)"
      by (cases "u_lookup_all_classes env s1")
    with Inr imp assms have "st' = s2"
      by (auto simp: import_then_sweep_def split: option.splits)
    with sweep_calls[OF sw] imp show ?thesis by simp
  qed
qed

lemma later_import_parses:
  assumes "\<not> registered st name" and "CHR ''/'' \<notin> set name"
    and "search_tiers env name = Inr (Some (fname, None))"
    and "import_name d env st name = Some (r, st')"
  shows "\<exists>before after. calls st' = calls st @ before @ Call_ParsePyTD fname name # after"
proof -
  from assms(4) have "import_then_sweep d env st name = Some (r, st')"
    by (simp add: import_name_def)
  from import_then_sweep_calls[OF this] obtain r1 s1 where
    imp: "u_import_name d env st name = Some (r1, s1)" and cs: "calls st' = calls s1" by blast
  from imp obtain k where d: "d = Suc k" by (cases d) simp_all
  with imp have body: "u_import_name_body (u_import_name k env) env st name = Some (r1, s1)"
    by simp
  from import_name_body_search[OF assms(2), of st "u_import_name k env" env]
  obtain s0 where s0: "searched st s0"
    and run0: "u_import_name_body (u_import_name k env) env st name =
       (case search_tiers env name of
          Inl e \<Rightarrow> Some (Inl e, s0)
        | Inr None \<Rightarrow> Some (Inr None, s0)
        | Inr (Some (fname, given)) \<Rightarrow>
            as_found (u_load_file (u_import_name k env) env s0 name fname given))"
    by blast
  from run0 assms(3) have run: "u_import_name_body (u_import_name k env) env st name =
        as_found (u_load_file (u_import_name k env) env s0 name fname None)"
    by simp
  from run body have
    "as_found (u_load_file (u_import_name k env) env s0 name fname None) = Some (r1, s1)"
    by simp
  from as_found_Some[OF this] obtain r0 where
    lf: "u_load_file (u_import_name k env) env s0 name fname None = Some (r0, s1)"
    by blast
  from s0 have "modules s0 = modules st" by (simp add: searched_def)
  with assms(1) have unreg0: "\<not> registered s0 name" by (simp add: registered_def)
  from load_file_parses[OF import_name_growing unreg0 lf]
  obtain after where a: "calls s1 = (calls s0 @ [Call_ParsePyTD fname name]) @ after"
    unfolding prefix_def by blast
  from s0 obtain before where "calls s0 = calls st @ before" unfolding searched_def by blast
  with a cs have "calls st' = calls st @ before @ Call_ParsePyTD fname name # after" by simp
  then show ?thesis by blast
qed


subsection \<open>The modules of \<^verbatim>\<open>Loader.__init__\<close>\<close>









section \<open>The claims\<close>






text \<open>
  C8. A name that is registered, loaded with another file name: \<^verbatim>\<open>_load_file\<close>
  raises the \<^verbatim>\<open>AssertionError\<close> of line 93 at once, and the registry is what it was.
\<close>

theorem load_file_conflict:
  assumes "map_of (modules st) name = Some m" and "filename m \<noteq> fname"
  shows "\<exists>st'. u_load_file imp env st name fname given =
             Some (Inl (AssertionError_exists_as_both name fname (filename m)), st') \<and>
           modules st' = modules st \<and> calls st' = calls st"
  using assms by (simp add: u_load_file_def)

text \<open>The example of the claim: \<open>x\<close> loaded from \<open>foo\<close>, then from \<open>bar\<close>.\<close>

theorem load_file_conflict_witness:
  "\<exists>t s1 s2.
     u_load_file (\<lambda>st name. None)
       (example_env None (example_options None False) [] []
          [(''foo'', TypeDeclUnit ''x'' [] []), (''bar'', TypeDeclUnit ''x'' [] [])] [])
       example_loader ''x'' ''foo'' None = Some (Inr t, s1) \<and>
     u_load_file (\<lambda>st name. None)
       (example_env None (example_options None False) [] []
          [(''foo'', TypeDeclUnit ''x'' [] []), (''bar'', TypeDeclUnit ''x'' [] [])] [])
       s1 ''x'' ''bar'' None
       = Some (Inl (AssertionError_exists_as_both ''x'' ''bar'' ''foo''), s2) \<and>
     modules s2 = modules s1"
proof -
  let ?env = "example_env None (example_options None False) [] []
                [(''foo'', TypeDeclUnit ''x'' [] []), (''bar'', TypeDeclUnit ''x'' [] [])] []"
  let ?m = "\<lparr>module_name = ''x'', filename = ''foo'', ast = TypeDeclUnit ''x'' [] [],
             dirty = True\<rparr>"
  let ?s1 = "\<lparr>modules = modules example_loader @ [(''x'', ?m)], concatenated = None,
              calls = [Call_ParsePyTD ''foo'' ''x'']\<rparr>"
  have first: "u_load_file (\<lambda>st name. None) ?env example_loader ''x'' ''foo'' None
                 = Some (Inr (TypeDeclUnit ''x'' [] []), ?s1)"
    by (simp add: run_defs)
  have "map_of (modules ?s1) ''x'' = Some ?m" and "filename ?m \<noteq> ''bar''"
    by (simp_all add: example_loader_def)
  from load_file_conflict[OF this, of "\<lambda>st name. None" ?env None] first
  show ?thesis by auto
qed

text \<open>
  C9. \<^verbatim>\<open>import_relative(level)\<close> with a base module and a level of at least 1 is
  \<^verbatim>\<open>import_name\<close> of the base's dotted name without its last \<open>level\<close> components.
  A level below 1 fails the assertion of line 189; no base module raises the
  \<^verbatim>\<open>ValueError\<close> of line 191. Neither error touches the loader.
\<close>

theorem import_relative_ancestor:
  "(1 \<le> level \<and> base_module env = Some base \<longrightarrow>
      import_relative depth env st level =
        import_name depth env st (join_dot (rev (drop (nat level) (rev (split_dot base)))))) \<and>
   (level < 1 \<longrightarrow> import_relative depth env st level = Some (Inl AssertionError_level, st)) \<and>
   (1 \<le> level \<and> base_module env = None \<longrightarrow>
      import_relative depth env st level = Some (Inl ValueError_non_package, st))"
  by (simp add: import_relative_def import_name_def slice_to_neg)

text \<open>Base \<open>a.b.c\<close>: level 1 is \<open>a.b\<close>, level 2 is \<open>a\<close>; level 0 and a missing base fail.\<close>

theorem import_relative_ancestor_witness:
  "import_relative 3 (example_env (Some ''a.b.c'') (example_options None False) [] [] [] [])
      example_loader 1
     = import_name 3 (example_env (Some ''a.b.c'') (example_options None False) [] [] [] [])
         example_loader ''a.b'' \<and>
   import_relative 3 (example_env (Some ''a.b.c'') (example_options None False) [] [] [] [])
      example_loader 2
     = import_name 3 (example_env (Some ''a.b.c'') (example_options None False) [] [] [] [])
         example_loader ''a'' \<and>
   import_relative 3 (example_env (Some ''a.b.c'') (example_options None False) [] [] [] [])
      example_loader 0 = Some (Inl AssertionError_level, example_loader) \<and>
   import_relative 3 (example_env None (example_options None False) [] [] [] [])
      example_loader 1 = Some (Inl ValueError_non_package, example_loader)"
  using
    import_relative_ancestor[of 1 "example_env (Some ''a.b.c'') (example_options None False) [] [] [] []"
      "''a.b.c''" 3 example_loader]
    import_relative_ancestor[of 2 "example_env (Some ''a.b.c'') (example_options None False) [] [] [] []"
      "''a.b.c''" 3 example_loader]
    import_relative_ancestor[of 0 "example_env (Some ''a.b.c'') (example_options None False) [] [] [] []"
      "''a.b.c''" 3 example_loader]
    import_relative_ancestor[of 1 "example_env None (example_options None False) [] [] [] []"
      "''a.b.c''" 3 example_loader]
  by (simp add: example_env_def)

text \<open>
  C7. Claimed: a path whose key the imports map sends to the discard sentinel is reported
  not found. The code loads it: lines 309 to 311 say that \<^verbatim>\<open>/dev/null\<close> entries are
  wanted, and test \<^verbatim>\<open>exists\<close> and \<^verbatim>\<open>isdir\<close> for that reason. Importing \<open>foo\<close>,
  mapped to \<^verbatim>\<open>/dev/null\<close>, parses \<^verbatim>\<open>/dev/null\<close> and registers the module.
\<close>

theorem dev_null_entry_is_loaded:
  "map_option (\<lambda>(r, s). (r, map fst (modules s), calls s))
     (u_import_name (Suc 0) dev_null_env example_loader ''foo'') =
   Some (Inr (Some (TypeDeclUnit ''foo'' [] [])),
         [''__builtin__'', ''typing'', ''foo''],
         [Call_ParsePredefinedPyTD ''builtins'' ''foo'', Call_isdir ''foo'',
          Call_exists ''/dev/null'', Call_isdir ''/dev/null'',
          Call_ParsePyTD ''/dev/null'' ''foo''])"
  by (simp add: dev_null_env_def run_defs)


text \<open>
  C7, as the code has it. For a path that is a key of the imports map, \<^verbatim>\<open>_load_pyi\<close>
  loads the file the key is mapped to when that file exists and is not a directory, and
  then never reports not found; it reports not found exactly when the mapped file does
  not exist or is a directory.
\<close>

theorem load_pyi_mapped:
  assumes "imports_map (options env) = Some m" and "map_of m path = Some full_path"
  shows "(path_exists env full_path \<and> \<not> path_isdir env full_path \<longrightarrow>
            u_load_pyi imp env st path name =
              as_found (u_load_file imp env
                 (record_call (Call_isdir full_path) (record_call (Call_exists full_path) st))
                 name full_path None) \<and>
            (\<forall>s. u_load_pyi imp env st path name \<noteq> Some (Inr None, s))) \<and>
         (\<not> (path_exists env full_path \<and> \<not> path_isdir env full_path) \<longrightarrow>
            (\<exists>s. only_calls st s \<and> u_load_pyi imp env st path name = Some (Inr None, s)))"
proof (intro conjI impI)
  assume ok: "path_exists env full_path \<and> \<not> path_isdir env full_path"
  with assms show eq: "u_load_pyi imp env st path name =
      as_found (u_load_file imp env
         (record_call (Call_isdir full_path) (record_call (Call_exists full_path) st))
         name full_path None)"
    by (simp add: u_load_pyi_def)
  show "\<forall>s. u_load_pyi imp env st path name \<noteq> Some (Inr None, s)"
    unfolding eq by (auto simp: as_found_def split: option.splits sum.splits prod.splits)
next
  assume no: "\<not> (path_exists env full_path \<and> \<not> path_isdir env full_path)"
  show "\<exists>s. only_calls st s \<and> u_load_pyi imp env st path name = Some (Inr None, s)"
  proof (cases "path_exists env full_path")
    case True
    with no assms have "u_load_pyi imp env st path name =
        Some (Inr None, record_call (Call_isdir full_path) (record_call (Call_exists full_path) st))"
      by (simp add: u_load_pyi_def)
    moreover have "only_calls st (record_call (Call_isdir full_path) (record_call (Call_exists full_path) st))"
      by (intro only_calls_record2 only_calls_record)
    ultimately show ?thesis by blast
  next
    case False
    with assms have "u_load_pyi imp env st path name =
        Some (Inr None, record_call (Call_exists full_path) st)"
      by (simp add: u_load_pyi_def)
    with only_calls_record show ?thesis by blast
  qed
qed


theorem load_pyi_mapped_witness:
  "u_load_pyi (\<lambda>st name. None) dev_null_env example_loader ''foo'' ''foo'' =
     as_found (u_load_file (\<lambda>st name. None) dev_null_env
        (record_call (Call_isdir ''/dev/null'') (record_call (Call_exists ''/dev/null'') example_loader))
        ''foo'' ''/dev/null'' None) \<and>
   u_load_pyi (\<lambda>st name. None) dev_null_env example_loader ''foo'' ''foo'' \<noteq>
     Some (Inr None, example_loader)"
proof -
  have "imports_map (options dev_null_env) = Some [(''foo'', ''/dev/null'')]"
    and "map_of [(''foo'', ''/dev/null'')] ''foo'' = Some ''/dev/null''"
    and "path_exists dev_null_env ''/dev/null'' \<and> \<not> path_isdir dev_null_env ''/dev/null''"
    by (simp_all add: dev_null_env_def example_env_def example_options_def)
  with load_pyi_mapped[of dev_null_env "[(''foo'', ''/dev/null'')]" "''foo''" "''/dev/null''"
      "\<lambda>st name. None" example_loader "''foo''"]
  show ?thesis by blast
qed

text \<open>
  C6. Claimed: with an imports map the search never probes the file system, and a path
  resolves only if it is a key of the map. \<^verbatim>\<open>_import_file\<close> still asks
  \<^verbatim>\<open>os.path.isdir\<close> for the path of the name (line 277): with an empty map and a
  directory \<open>foo\<close> on disk, \<open>foo\<close> resolves to an empty package.
\<close>

theorem unmapped_directory_resolves:
  "imports_map (options unmapped_dir_env) = Some [] \<and>
   map_option (\<lambda>(r, s). (r, map fst (modules s), calls s))
     (u_import_file (\<lambda>st name. None) unmapped_dir_env example_loader ''foo'' [''foo'']
        (pythonpath (options unmapped_dir_env))) =
   Some (Inr (Some (TypeDeclUnit ''foo'' [] [])),
         [''__builtin__'', ''typing'', ''foo''],
         [Call_isdir ''foo''])"
  by (simp add: unmapped_dir_env_def run_defs)


text \<open>
  C6, as the code has it. With an imports map (the search path is then \<^verbatim>\<open>[""]\<close>, by
  the assertion of line 73): \<^verbatim>\<open>_load_pyi\<close> reports a path that is no key of the map
  not found without a call to the file system, whatever is on disk, so it finds a tree
  only for a key. \<^verbatim>\<open>_import_file\<close> reports a name not found when neither its
  \<^verbatim>\<open>__init__\<close> path nor its path is a key and its path is no directory; when the
  \<^verbatim>\<open>__init__\<close> path is no key and the path is a directory, it loads the empty
  package.
\<close>

theorem imports_map_bypass:
  assumes "imports_map (options env) = Some m"
  shows "(map_of m path = None \<longrightarrow> u_load_pyi imp env st path name = Some (Inr None, st)) \<and>
         (u_load_pyi imp env st path name = Some (Inr (Some t), s) \<longrightarrow> map_of m path \<noteq> None) \<and>
         (map_of m (os_path_join (os_path_join [] name_split) [''__init__'']) = None \<and>
          map_of m (os_path_join [] name_split) = None \<and>
          \<not> path_isdir env (os_path_join [] name_split) \<longrightarrow>
            u_import_file imp env st name name_split [[]] =
              Some (Inr None, record_call (Call_isdir (os_path_join [] name_split)) st)) \<and>
         (map_of m (os_path_join (os_path_join [] name_split) [''__init__'']) = None \<and>
          path_isdir env (os_path_join [] name_split) \<longrightarrow>
            u_import_file imp env st name name_split [[]] =
              as_found (u_create_empty imp env
                 (record_call (Call_isdir (os_path_join [] name_split)) st) name
                 (os_path_join (os_path_join [] name_split) [''__init__.pyi''])))"
proof -
  have none: "u_load_pyi imp env st' p name = Some (Inr None, st')" if "map_of m p = None" for p st'
    using that assms by (simp add: u_load_pyi_def)
  have a: "map_of m path = None \<longrightarrow> u_load_pyi imp env st path name = Some (Inr None, st)"
    using none by simp
  have b: "u_load_pyi imp env st path name = Some (Inr (Some t), s) \<longrightarrow> map_of m path \<noteq> None"
  proof
    assume r: "u_load_pyi imp env st path name = Some (Inr (Some t), s)"
    show "map_of m path \<noteq> None"
    proof
      assume "map_of m path = None"
      from none[OF this, of st] r show False by simp
    qed
  qed
  have c: "map_of m (os_path_join (os_path_join [] name_split) [''__init__'']) = None \<and>
          map_of m (os_path_join [] name_split) = None \<and>
          \<not> path_isdir env (os_path_join [] name_split) \<longrightarrow>
            u_import_file imp env st name name_split [[]] =
              Some (Inr None, record_call (Call_isdir (os_path_join [] name_split)) st)"
    by (simp add: none Let_def)
  have d: "map_of m (os_path_join (os_path_join [] name_split) [''__init__'']) = None \<and>
          path_isdir env (os_path_join [] name_split) \<longrightarrow>
            u_import_file imp env st name name_split [[]] =
              as_found (u_create_empty imp env
                 (record_call (Call_isdir (os_path_join [] name_split)) st) name
                 (os_path_join (os_path_join [] name_split) [''__init__.pyi'']))"
    by (simp add: none Let_def)
  from a b c d show ?thesis by blast
qed


theorem imports_map_bypass_witness:
  "u_load_pyi (\<lambda>st name. None) unmapped_dir_env example_loader ''bar'' ''bar'' =
     Some (Inr None, example_loader) \<and>
   path_exists unmapped_dir_env ''bar.pyi'' \<and>
   u_import_file (\<lambda>st name. None) unmapped_dir_env example_loader ''bar'' [''bar''] [[]] =
     Some (Inr None, record_call (Call_isdir ''bar'') example_loader) \<and>
   u_import_file (\<lambda>st name. None) unmapped_dir_env example_loader ''foo'' [''foo''] [[]] =
     as_found (u_create_empty (\<lambda>st name. None) unmapped_dir_env
        (record_call (Call_isdir ''foo'') example_loader) ''foo'' ''foo/__init__.pyi'')"
proof -
  have m: "imports_map (options unmapped_dir_env) = Some []"
    by (simp add: unmapped_dir_env_def example_env_def example_options_def)
  have dirs: "\<not> path_isdir unmapped_dir_env ''bar''" "path_isdir unmapped_dir_env ''foo''"
    "path_exists unmapped_dir_env ''bar.pyi''"
    by (simp_all add: unmapped_dir_env_def example_env_def)
  from imports_map_bypass[OF m, of "''bar''" "\<lambda>st name. None" example_loader "''bar''" "TypeDeclUnit ''bar'' [] []" example_loader "[''bar'']"]
    imports_map_bypass[OF m, of "''foo''" "\<lambda>st name. None" example_loader "''foo''" "TypeDeclUnit ''foo'' [] []" example_loader "[''foo'']"]
    dirs
  show ?thesis by simp
qed

text \<open>
  C5. Claimed: bundled definitions, then the search path, then the standard-library
  fallback, the last only if enabled. The one option is \<^verbatim>\<open>typeshed\<close>, and it guards
  typeshed inside both calls of \<^verbatim>\<open>_load_builtin\<close>, not the third tier: with the
  option off, \<open>os\<close> still resolves from pytype's \<^verbatim>\<open>stdlib\<close> definitions; with it on,
  typeshed's \<^verbatim>\<open>builtins\<close> are asked before the search path and win over a file there.
\<close>

theorem stdlib_tier_is_not_optional:
  "typeshed (options stdlib_only_env) = False \<and>
   map_option (\<lambda>(r, s). (r, calls s))
     (u_import_name (Suc 0) stdlib_only_env example_loader ''os'') =
   Some (Inr (Some (TypeDeclUnit ''os'' [''error''] [])),
         [Call_ParsePredefinedPyTD ''builtins'' ''os'', Call_exists ''os/__init__.pyi'',
          Call_isdir ''os'', Call_exists ''os.pyi'', Call_ParsePredefinedPyTD ''stdlib'' ''os'']) \<and>
   map_option (\<lambda>(r, s). (r, map_option filename (map_of (modules s) ''foo''), calls s))
     (u_import_name (Suc 0) typeshed_env example_loader ''foo'') =
   Some (Inr (Some (TypeDeclUnit ''foo'' [''Shed''] [])), Some ''pytd:foo'',
         [Call_ParsePredefinedPyTD ''builtins'' ''foo'',
          Call_parse_type_definition ''builtins'' ''foo''])"
  by (simp add: stdlib_only_env_def typeshed_env_def run_defs)


text \<open>
  C5, as the code has it. \<^verbatim>\<open>_import_name\<close> finds the source of a name as
  \<open>search_tiers\<close> says: pytype's \<^verbatim>\<open>builtins\<close> definitions (typeshed's if there is
  none and the option is on), then the directories of the search path in their order,
  then pytype's \<^verbatim>\<open>stdlib\<close> definitions (typeshed's likewise). The first hit is
  handed to \<^verbatim>\<open>_load_file\<close> and its result is the result; no hit is \<^verbatim>\<open>None\<close>; the
  search changes nothing but the log of calls. A name with a \<^verbatim>\<open>builtins\<close> definition
  resolves to it whatever the search path holds, and a hit on the search path wins over
  the \<^verbatim>\<open>stdlib\<close> tier.
\<close>

theorem import_name_tiers:
  assumes "CHR ''/'' \<notin> set name"
  shows "(\<exists>s. only_calls st s \<and>
            u_import_name (Suc depth) env st name =
              (case search_tiers env name of
                 Inl e \<Rightarrow> Some (Inl e, s)
               | Inr None \<Rightarrow> Some (Inr None, s)
               | Inr (Some (fname, given)) \<Rightarrow>
                   as_found (u_load_file (u_import_name depth env) env s name fname given))) \<and>
         (ParsePredefinedPyTD env ''builtins'' name (python_version (options env)) = Inr (Some tree)
            \<longrightarrow> search_tiers env name = Inr (Some (PREFIX @ name, Some tree))) \<and>
         (tier_bundled env ''builtins'' name = Inr None \<and>
          tier_search_path env name (split_dot name) (pythonpath (options env)) = Some hit
            \<longrightarrow> search_tiers env name = Inr (Some hit))"
proof (intro conjI impI)
  from import_name_body_search[OF assms, of st "u_import_name depth env" env]
  obtain s where "searched st s" and
    "u_import_name_body (u_import_name depth env) env st name =
       (case search_tiers env name of
          Inl e \<Rightarrow> Some (Inl e, s)
        | Inr None \<Rightarrow> Some (Inr None, s)
        | Inr (Some (fname, given)) \<Rightarrow>
            as_found (u_load_file (u_import_name depth env) env s name fname given))"
    by blast
  then have "only_calls st s \<and>
            u_import_name (Suc depth) env st name =
              (case search_tiers env name of
                 Inl e \<Rightarrow> Some (Inl e, s)
               | Inr None \<Rightarrow> Some (Inr None, s)
               | Inr (Some (fname, given)) \<Rightarrow>
                   as_found (u_load_file (u_import_name depth env) env s name fname given))"
    by (simp add: searched_only_calls)
  then show "\<exists>s. only_calls st s \<and>
            u_import_name (Suc depth) env st name =
              (case search_tiers env name of
                 Inl e \<Rightarrow> Some (Inl e, s)
               | Inr None \<Rightarrow> Some (Inr None, s)
               | Inr (Some (fname, given)) \<Rightarrow>
                   as_found (u_load_file (u_import_name depth env) env s name fname given))"
    by (rule exI)
next
  assume "ParsePredefinedPyTD env ''builtins'' name (python_version (options env)) = Inr (Some tree)"
  then show "search_tiers env name = Inr (Some (PREFIX @ name, Some tree))"
    by (simp add: search_tiers_def tier_bundled_def)
next
  assume "tier_bundled env ''builtins'' name = Inr None \<and>
          tier_search_path env name (split_dot name) (pythonpath (options env)) = Some hit"
  then show "search_tiers env name = Inr (Some hit)"
    by (simp add: search_tiers_def)
qed


text \<open>\<open>foo\<close> is bundled and a file \<^verbatim>\<open>foo.pyi\<close> exists: the bundled tree is loaded.\<close>

theorem import_name_tiers_witness:
  "search_tiers bundled_and_file_env ''foo'' =
     Inr (Some (''pytd:foo'', Some (TypeDeclUnit ''foo'' [''Bundled''] []))) \<and>
   path_exists bundled_and_file_env ''foo.pyi'' \<and>
   (\<exists>s. u_import_name (Suc 0) bundled_and_file_env example_loader ''foo'' =
          Some (Inr (Some (TypeDeclUnit ''foo'' [''Bundled''] [])), s) \<and>
        map_option filename (map_of (modules s) ''foo'') = Some ''pytd:foo'')"
proof -
  have h: "CHR ''/'' \<notin> set ''foo''" by simp
  have p: "ParsePredefinedPyTD bundled_and_file_env ''builtins'' ''foo''
             (python_version (options bundled_and_file_env)) =
           Inr (Some (TypeDeclUnit ''foo'' [''Bundled''] []))"
    by (simp add: bundled_and_file_env_def example_env_def)
  have e: "path_exists bundled_and_file_env ''foo.pyi''"
    by (simp add: bundled_and_file_env_def example_env_def)
  note tiers = import_name_tiers[OF h, of example_loader 0 bundled_and_file_env
      "TypeDeclUnit ''foo'' [''Bundled''] []" "(''foo.pyi'', None)"]
  from tiers p have "search_tiers bundled_and_file_env ''foo'' =
      Inr (Some (PREFIX @ ''foo'', Some (TypeDeclUnit ''foo'' [''Bundled''] [])))"
    by blast
  then have t: "search_tiers bundled_and_file_env ''foo'' =
              Inr (Some (''pytd:foo'', Some (TypeDeclUnit ''foo'' [''Bundled''] [])))"
    by (simp add: PREFIX_def)
  from tiers obtain s0 where s0: "only_calls example_loader s0"
    and run: "u_import_name (Suc 0) bundled_and_file_env example_loader ''foo'' =
       (case search_tiers bundled_and_file_env ''foo'' of
                 Inl e \<Rightarrow> Some (Inl e, s0)
               | Inr None \<Rightarrow> Some (Inr None, s0)
               | Inr (Some (fname, given)) \<Rightarrow>
                   as_found (u_load_file (u_import_name 0 bundled_and_file_env)
                      bundled_and_file_env s0 ''foo'' fname given))"
    by blast
  from s0 have m: "modules s0 = modules example_loader" by (simp add: only_calls_def)
  have "\<exists>s. u_import_name (Suc 0) bundled_and_file_env example_loader ''foo'' =
          Some (Inr (Some (TypeDeclUnit ''foo'' [''Bundled''] [])), s) \<and>
        map_option filename (map_of (modules s) ''foo'') = Some ''pytd:foo''"
    unfolding run t
    by (simp add: m bundled_and_file_env_def example_env_def example_options_def example_loader_def
          u_load_file_def as_found_def u_postprocess_pyi_def load_file_try_def
          u_load_and_resolve_ast_dependencies_def set_module_def Module_init_def set_ast_def
          collect_dependencies_def Let_def)
  with t e show ?thesis by simp
qed

text \<open>
  C2. Claimed: a load that fails for a missing dependency rolls the registry back to
  exactly what it was before the load. Only the module that was being loaded is removed
  (line 119); a dependency loaded before the missing one was met stays registered:
  \<open>M\<close> needs \<open>C\<close> and \<open>D\<close>, \<open>D\<close> is missing, and \<open>C\<close> is registered after
  \<^verbatim>\<open>import_name\<close> has raised.
\<close>

theorem loaded_dependency_stays:
  "map fst (modules example_loader) = [''__builtin__'', ''typing''] \<and>
   map_option (\<lambda>(r, s). (r, map fst (modules s)))
     (import_name (Suc (Suc 0)) missing_dependency_env example_loader ''M'') =
   Some (Inl (DependencyNotFoundError ''D''), [''__builtin__'', ''typing'', ''C''])"
  by (simp add: missing_dependency_env_def run_defs sweep_defs)


text \<open>
  C2, as the code has it. When \<^verbatim>\<open>import_name\<close> of a name that is not registered
  raises \<^verbatim>\<open>DependencyNotFoundError\<close>, the name is not registered afterwards and every
  module that was registered before is registered unchanged; a later \<^verbatim>\<open>import_name\<close>
  of the name starts afresh: when the search finds the name in a file, the file is parsed
  again. The exception is the one of line 132: the passes of the sweep raise others
  (\<open>sweep_raises_other_errors\<close>).
\<close>

theorem missing_dependency_evicts:
  assumes "\<not> registered st name" and "sweep_raises_other_errors env"
    and "import_name depth env st name = Some (Inl (DependencyNotFoundError missing), st')"
  shows "\<not> registered st' name \<and>
         (\<forall>n m. map_of (modules st) n = Some m \<longrightarrow> map_of (modules st') n = Some m) \<and>
         (\<forall>d fname r2 st2.
            search_tiers env name = Inr (Some (fname, None)) \<longrightarrow>
            import_name d env st' name = Some (r2, st2) \<longrightarrow>
              (\<exists>before after. calls st2 = calls st' @ before @ Call_ParsePyTD fname name # after))"
proof -
  from assms(3) have its:
    "import_then_sweep depth env st name = Some (Inl (DependencyNotFoundError missing), st')"
    by (simp add: import_name_def)
  have imp: "u_import_name depth env st name = Some (Inl (DependencyNotFoundError missing), st')"
  proof (rule disjE[OF import_then_sweep_error[OF its]])
    assume "u_import_name depth env st name = Some (Inl (DependencyNotFoundError missing), st')"
    then show ?thesis .
  next
    assume "\<exists>found s. u_import_name depth env st name = Some (Inr found, s) \<and>
            u_lookup_all_classes env s = (Some (DependencyNotFoundError missing), st')"
    then obtain s where
      "u_lookup_all_classes env s = (Some (DependencyNotFoundError missing), st')"
      by blast
    then have
      "lookup_all_loop env s (map fst (modules s)) = (Some (DependencyNotFoundError missing), st')"
      by (simp add: u_lookup_all_classes_def)
    from lookup_all_loop_error[OF assms(2) this] show ?thesis by simp
  qed
  from import_name_post[OF imp] have post: "load_post st name (Inl (DependencyNotFoundError missing)) st'" .
  with assms(1) have unreg: "\<not> registered st' name" by (simp add: load_post_def)
  from post have g: "grows st st'" by (rule load_post_grows)
  have old: "\<forall>n m. map_of (modules st) n = Some m \<longrightarrow> map_of (modules st') n = Some m"
    using grows_old[OF g] by blast
  have sep: "CHR ''/'' \<notin> set name"
  proof
    assume s: "CHR ''/'' \<in> set name"
    from imp obtain k where "depth = Suc k" by (cases depth) simp_all
    with imp s show False by (simp add: u_import_name_body_def)
  qed
  have fresh: "\<forall>d fname r2 st2.
            search_tiers env name = Inr (Some (fname, None)) \<longrightarrow>
            import_name d env st' name = Some (r2, st2) \<longrightarrow>
              (\<exists>before after. calls st2 = calls st' @ before @ Call_ParsePyTD fname name # after)"
    using later_import_parses[OF unreg sep] by blast
  from unreg old fresh show ?thesis by blast
qed

theorem missing_dependency_evicts_witness:
  "\<not> registered example_loader ''M'' \<and>
   sweep_raises_other_errors missing_dependency_env \<and>
   (\<exists>s. import_name (Suc (Suc 0)) missing_dependency_env example_loader ''M'' =
          Some (Inl (DependencyNotFoundError ''D''), s) \<and>
        \<not> registered s ''M'' \<and>
        map_option filename (map_of (modules s) ''typing'') = Some ''pytd:typing'')"
proof -
  have unreg: "\<not> registered example_loader ''M''"
    by (simp add: registered_def example_loader_def)
  have sel: "FillInModuleClasses missing_dependency_env = fill_in_module_classes"
    "VerifyLookup missing_dependency_env = verify_lookup"
    "VerifyContainers missing_dependency_env = (\<lambda>t. None)"
    by (simp_all add: missing_dependency_env_def example_env_def)
  have fill: "fill_in_module_classes m t \<noteq> Inl e" for m t e
    by (cases t) simp
  have verify: "\<not> is_DependencyNotFoundError e" if "verify_lookup t = Some e" for t e
  proof -
    from that have "e = Raised ''Unresolved class''"
      by (simp add: verify_lookup_def split: if_splits)
    then show ?thesis by simp
  qed
  have other: "sweep_raises_other_errors missing_dependency_env"
    unfolding sweep_raises_other_errors_def sel
    using fill verify by simp
  have "map_option fst (import_name (Suc (Suc 0)) missing_dependency_env example_loader ''M'') =
          Some (Inl (DependencyNotFoundError ''D''))"
    by (simp add: missing_dependency_env_def run_defs sweep_defs)
  then have "\<exists>s. import_name (Suc (Suc 0)) missing_dependency_env example_loader ''M'' =
          Some (Inl (DependencyNotFoundError ''D''), s)" by auto
  then obtain s where run: "import_name (Suc (Suc 0)) missing_dependency_env example_loader ''M'' =
          Some (Inl (DependencyNotFoundError ''D''), s)" ..
  note evicted = missing_dependency_evicts[OF unreg other run]
  from evicted have gone: "\<not> registered s ''M''" by (rule conjunct1)
  from evicted have old:
    "\<forall>n m. map_of (modules example_loader) n = Some m \<longrightarrow> map_of (modules s) n = Some m"
    by (elim conjE)
  have "map_of (modules example_loader) ''typing'' =
      Some \<lparr>module_name = ''typing'', filename = ''pytd:typing'',
            ast = TypeDeclUnit ''typing'' [''Any''] [], dirty = True\<rparr>"
    by (simp add: example_loader_def)
  with old have "map_of (modules s) ''typing'' =
      Some \<lparr>module_name = ''typing'', filename = ''pytd:typing'',
            ast = TypeDeclUnit ''typing'' [''Any''] [], dirty = True\<rparr>"
    by (elim allE impE)
  then have "map_option filename (map_of (modules s) ''typing'') = Some ''pytd:typing''"
    by simp
  with run gone have "import_name (Suc (Suc 0)) missing_dependency_env example_loader ''M'' =
          Some (Inl (DependencyNotFoundError ''D''), s) \<and>
        \<not> registered s ''M'' \<and>
        map_option filename (map_of (modules s) ''typing'') = Some ''pytd:typing''"
    by (intro conjI)
  then have "\<exists>s. import_name (Suc (Suc 0)) missing_dependency_env example_loader ''M'' =
          Some (Inl (DependencyNotFoundError ''D''), s) \<and>
        \<not> registered s ''M'' \<and>
        map_option filename (map_of (modules s) ''typing'') = Some ''pytd:typing''"
    by (intro exI)
  with other have "sweep_raises_other_errors missing_dependency_env \<and>
     (\<exists>s. import_name (Suc (Suc 0)) missing_dependency_env example_loader ''M'' =
          Some (Inl (DependencyNotFoundError ''D''), s) \<and>
        \<not> registered s ''M'' \<and>
        map_option filename (map_of (modules s) ''typing'') = Some ''pytd:typing'')"
    by (rule conjI)
  with unreg show ?thesis by (rule conjI)
qed

text \<open>
  C4. \<^verbatim>\<open>import_name\<close>, \<^verbatim>\<open>import_relative_name\<close>, \<^verbatim>\<open>import_relative\<close> and
  \<^verbatim>\<open>resolve_ast\<close> run \<^verbatim>\<open>_lookup_all_classes\<close> before they return: when one of them
  returns, no registered module is dirty, and what \<^verbatim>\<open>import_name\<close> leaves is what
  the sweep leaves after \<^verbatim>\<open>_import_name\<close>. From \<^verbatim>\<open>Loader.__init__\<close> on, a module
  that is not dirty has a tree that passes \<^verbatim>\<open>VerifyLookup\<close>, the check that no class
  reference is unbound (\<open>registry_ok\<close>).
\<close>

theorem entry_points_sweep:
  assumes "registry_ok env st"
  shows "(import_name depth env st name = Some (Inr found, st') \<longrightarrow>
            (\<exists>found0 s. u_import_name depth env st name = Some (Inr found0, s) \<and>
                 u_lookup_all_classes env s = (None, st') \<and>
                 found = after_sweep st' name found0) \<and>
            all_clean st' \<and> registry_ok env st') \<and>
         (import_relative_name depth env st name = Some (Inr found, st') \<longrightarrow>
            all_clean st' \<and> registry_ok env st') \<and>
         (import_relative depth env st level = Some (Inr found, st') \<longrightarrow>
            all_clean st' \<and> registry_ok env st') \<and>
         (resolve_ast depth env st tree = Some (Inr resolved, st') \<longrightarrow>
            all_clean st' \<and> registry_ok env st') \<and>
         (\<forall>st0. Loader_init env = Inr st0 \<longrightarrow> registry_ok env st0)"
proof (intro conjI impI allI)
  assume "import_name depth env st name = Some (Inr found, st')"
  then have run: "import_then_sweep depth env st name = Some (Inr found, st')"
    by (simp add: import_name_def)
  from import_then_sweep_clean[OF assms run]
  show "\<exists>found0 s. u_import_name depth env st name = Some (Inr found0, s) \<and>
                 u_lookup_all_classes env s = (None, st') \<and>
                 found = after_sweep st' name found0"
    and "all_clean st'" and "registry_ok env st'"
    by blast+
next
  assume "import_relative_name depth env st name = Some (Inr found, st')"
  from import_relative_name_cases[OF this] obtain n where
    run: "import_then_sweep depth env st n = Some (Inr found, st')" by auto
  from import_then_sweep_clean[OF assms run]
  show "all_clean st'" and "registry_ok env st'" by blast+
next
  assume "import_relative depth env st level = Some (Inr found, st')"
  from import_relative_cases[OF this] obtain n where
    run: "import_then_sweep depth env st n = Some (Inr found, st')" by auto
  from import_then_sweep_clean[OF assms run]
  show "all_clean st'" and "registry_ok env st'" by blast+
next
  assume "resolve_ast depth env st tree = Some (Inr resolved, st')"
  from resolve_ast_clean[OF assms this]
  show "all_clean st'" and "registry_ok env st'" by blast+
next
  fix st0 assume "Loader_init env = Inr st0"
  then show "registry_ok env st0" by (rule init_registry_ok)
qed


text \<open>The two files that refer to each other, imported into a new loader.\<close>

theorem entry_points_sweep_witness:
  "registry_ok cyclic_env example_loader \<and>
   (\<exists>found s. import_name (Suc (Suc 0)) cyclic_env example_loader ''A'' = Some (Inr found, s) \<and>
      all_clean s \<and> registry_ok cyclic_env s \<and> map fst (modules s) = [''__builtin__'', ''typing'', ''A'', ''B''])"
proof -
  have "Loader_init cyclic_env = Inr example_loader"
    by (simp add: Loader_init_def cyclic_env_def example_env_def example_options_def
          example_loader_def Module_init_def PREFIX_def)
  then have ok: "registry_ok cyclic_env example_loader" by (rule init_registry_ok)
  have "\<exists>found s. import_name (Suc (Suc 0)) cyclic_env example_loader ''A'' = Some (Inr found, s) \<and>
          map fst (modules s) = [''__builtin__'', ''typing'', ''A'', ''B'']"
    by (simp add: cyclic_env_def run_defs sweep_defs)
  then obtain found s where
    run: "import_name (Suc (Suc 0)) cyclic_env example_loader ''A'' = Some (Inr found, s)"
    and keys: "map fst (modules s) = [''__builtin__'', ''typing'', ''A'', ''B'']"
    by (elim exE conjE)
  from entry_points_sweep[OF ok, of "Suc (Suc 0)" "''A''" found s] run
  have clean: "all_clean s \<and> registry_ok cyclic_env s" by simp
  have "import_name (Suc (Suc 0)) cyclic_env example_loader ''A'' = Some (Inr found, s) \<and>
      all_clean s \<and> registry_ok cyclic_env s \<and>
      map fst (modules s) = [''__builtin__'', ''typing'', ''A'', ''B'']"
    using run clean keys by simp
  then have "\<exists>found s. import_name (Suc (Suc 0)) cyclic_env example_loader ''A'' = Some (Inr found, s) \<and>
      all_clean s \<and> registry_ok cyclic_env s \<and>
      map fst (modules s) = [''__builtin__'', ''typing'', ''A'', ''B'']"
    by (intro exI)
  with ok show ?thesis by (rule conjI)
qed







end
